theory Spec2Isabelle
  imports Complex_Main
begin

section \<open>Numbers, arrays and exceptions\<close>

text \<open>
  The library computes with NumPy arrays of double-precision numbers. The embedding
  takes the numbers as reals: rounding, infinities and NaN are outside the model, and
  every theorem about a quotient or a square root says which inputs keep the
  computation inside the reals (a positive divisor, a nonnegative radicand).
  A one-dimensional array is a list, a two-dimensional array is a list of rows.
  A Python exception is a value of \<open>error\<close>; a function that may raise returns
  \<open>error + 'a\<close> with \<open>Inl\<close> for the exception.
\<close>

datatype error =
    AssertionError | ValueError | TypeError | AttributeError | IndexError
  | NotImplementedError | SolverError

type_synonym vec = "real list"
type_synonym matrix = "real list list"

text \<open>
  NumPy broadcasting of an elementwise binary operation over two one-dimensional
  arrays: the shapes agree when the lengths are equal or one of them is 1 (that
  operand is then repeated); any other pair of lengths raises ValueError.
\<close>

definition broadcastable :: "nat \<Rightarrow> nat \<Rightarrow> bool" where
  "broadcastable m n = (m = n \<or> m = 1 \<or> n = 1)"

definition bc :: "('a \<Rightarrow> 'b \<Rightarrow> 'c) \<Rightarrow> 'a list \<Rightarrow> 'b list \<Rightarrow> 'c list" where
  "bc f xs ys =
     (if length xs = length ys then map (\<lambda>(x, y). f x y) (zip xs ys)
      else if length xs = 1 then map (f (hd xs)) ys
      else map (\<lambda>x. f x (hd ys)) xs)"

definition broadcast :: "('a \<Rightarrow> 'b \<Rightarrow> 'c) \<Rightarrow> 'a list \<Rightarrow> 'b list \<Rightarrow> error + 'c list" where
  "broadcast f xs ys =
     (if broadcastable (length xs) (length ys) then Inr (bc f xs ys) else Inl ValueError)"

text \<open>\<open>np.any\<close> and \<open>np.all\<close> of a one-dimensional boolean array.\<close>

definition np_any :: "bool list \<Rightarrow> bool" where
  "np_any bs = list_ex (\<lambda>b. b) bs"

definition np_all :: "bool list \<Rightarrow> bool" where
  "np_all bs = list_all (\<lambda>b. b) bs"

section \<open>Geometric primitives (utils.py)\<close>

text \<open>
  \<open>hyperrectangle_check_intersection\<close>:
  \<^verbatim>\<open>if np.any(lower1 >= upper2) or np.any(upper1 <= lower2): return False\<close>
  and \<^verbatim>\<open>return True\<close> otherwise. Python's \<open>or\<close> evaluates its right operand only
  when the left one is false.
\<close>

definition hyperrectangle_check_intersection :: "vec \<Rightarrow> vec \<Rightarrow> vec \<Rightarrow> vec \<Rightarrow> error + bool" where
  "hyperrectangle_check_intersection lower1 upper1 lower2 upper2 =
     (case broadcast (\<lambda>a b. a \<ge> b) lower1 upper2 of
        Inl e \<Rightarrow> Inl e
      | Inr c1 \<Rightarrow>
          if np_any c1 then Inr False
          else (case broadcast (\<lambda>a b. a \<le> b) upper1 lower2 of
                  Inl e \<Rightarrow> Inl e
                | Inr c2 \<Rightarrow> if np_any c2 then Inr False else Inr True))"

text \<open>
  \<open>itertools.product(*pools)\<close>, as the Python documentation defines it: starting from
  the list holding the empty tuple, every pool in turn extends every tuple built so far
  by each of the pool's elements (\<^verbatim>\<open>result = [x+[y] for x in result for y in pool]\<close>).
\<close>

definition itertools_product :: "'a list list \<Rightarrow> 'a list list" where
  "itertools_product pools =
     foldl (\<lambda>result pool. concat (map (\<lambda>x. map (\<lambda>y. x @ [y]) pool) result)) [[]] pools"

text \<open>
  \<open>hyperrectangle_get_vertices\<close>:
  \<^verbatim>\<open>a = [[l1, l2] for l1, l2 in zip(lower, upper)]\<close>, then the product of the pairs.
\<close>

definition hyperrectangle_get_vertices :: "vec \<Rightarrow> vec \<Rightarrow> vec list" where
  "hyperrectangle_get_vertices lower upper =
     itertools_product (map (\<lambda>(l1, l2). [l1, l2]) (zip lower upper))"

text \<open>
  The point that binary counting assigns to index \<open>k\<close>: dimension \<open>d\<close> (counted from 0)
  reads bit \<open>D - 1 - d\<close> of \<open>k\<close>, the \<open>d\<close>-th most significant of \<open>D\<close> bits.
\<close>

definition vertex_at :: "vec \<Rightarrow> vec \<Rightarrow> nat \<Rightarrow> vec" where
  "vertex_at lower upper k =
     map (\<lambda>d. if odd (k div 2 ^ (length lower - 1 - d)) then upper ! d else lower ! d)
       [0..<length lower]"

section \<open>Gap statistics (utils.py)\<close>

text \<open>
  \<open>alpha_vec\<close> is documented as an array of shape \<open>(n_constraint, 1)\<close>, which is what
  \<open>get_alpha_vec\<close> builds (\<^verbatim>\<open>np.zeros((W.shape[0], 1))\<close>); a flat array of shape
  \<open>(n_constraint,)\<close> is accepted as well. Both shapes are modelled.
\<close>

datatype ndarray = Array1 vec | Array2 matrix

definition dot :: "vec \<Rightarrow> vec \<Rightarrow> real" where
  "dot xs ys = sum_list (map (\<lambda>(x, y). x * y) (zip xs ys))"

text \<open>
  \<open>np.matmul(W, v)\<close> for a matrix \<open>W\<close> of shape \<open>(n, D)\<close> and a vector \<open>v\<close>: one dot
  product per row; a vector whose length is not \<open>D\<close> raises ValueError.
\<close>

definition matmul_vec :: "matrix \<Rightarrow> vec \<Rightarrow> error + vec" where
  "matmul_vec W v =
     (if list_all (\<lambda>row. length row = length v) W then Inr (map (\<lambda>row. dot row v) W)
      else Inl ValueError)"

text \<open>
  \<open>prod / alpha_vec\<close> for the one-dimensional \<open>prod\<close>. Against a one-dimensional divisor
  the quotient is elementwise. Against a two-dimensional divisor of shape \<open>(r, c)\<close> NumPy
  aligns \<open>prod\<close> with the last axis: the result has \<open>r\<close> rows, row \<open>k\<close> being \<open>prod\<close>
  divided (with broadcasting) by row \<open>k\<close> of the divisor. For the documented shape
  \<open>(n, 1)\<close> that is the \<open>n \<times> n\<close> table of all quotients \<open>prod[l] / alpha_vec[k]\<close>.
  (A divisor with no rows gives an empty table or a shape error; \<open>min\<close> of the empty table
  raises ValueError as the shape error does.)
\<close>

fun np_divide :: "vec \<Rightarrow> ndarray \<Rightarrow> error + ndarray" where
  "np_divide p (Array1 a) =
     (case broadcast (\<lambda>x y. x / y) p a of Inl e \<Rightarrow> Inl e | Inr q \<Rightarrow> Inr (Array1 q))"
| "np_divide p (Array2 rows) =
     (if rows = [] \<or> broadcastable (length p) (length (hd rows))
      then Inr (Array2 (map (\<lambda>row. bc (\<lambda>x y. x / y) p row) rows))
      else Inl ValueError)"

text \<open>\<open>.min()\<close> over all entries; an array without entries raises ValueError.\<close>

fun np_min :: "ndarray \<Rightarrow> error + real" where
  "np_min (Array1 xs) = (if xs = [] then Inl ValueError else Inr (min_list xs))"
| "np_min (Array2 rows) =
     (if concat rows = [] then Inl ValueError else Inr (min_list (concat rows)))"

text \<open>
  \<open>get_smallmij\<close>:
  \<^verbatim>\<open>prod = np.matmul(W, vj - vi); prod[prod < 0] = 0; smallmij = (prod / alpha_vec).min()\<close>
\<close>

definition get_smallmij :: "vec \<Rightarrow> vec \<Rightarrow> matrix \<Rightarrow> ndarray \<Rightarrow> error + real" where
  "get_smallmij vi vj W alpha_vec =
     (case broadcast (\<lambda>a b. a - b) vj vi of
        Inl e \<Rightarrow> Inl e
      | Inr diff \<Rightarrow>
          (case matmul_vec W diff of
             Inl e \<Rightarrow> Inl e
           | Inr prd \<Rightarrow>
               (case np_divide (map (\<lambda>p. if p < 0 then 0 else p) prd) alpha_vec of
                  Inl e \<Rightarrow> Inl e
                | Inr q \<Rightarrow> np_min q)))"

text \<open>
  The formula the specification gives for \<open>m(i,j)\<close>, written from its words: the minimum
  over the rows \<open>k\<close> of \<open>W\<close> of \<open>max(0, (W(vj - vi))_k) / alpha_k\<close>, with \<open>alpha\<close> the list of
  the per-row constants.
\<close>

definition smallmij_spec :: "vec \<Rightarrow> vec \<Rightarrow> matrix \<Rightarrow> vec \<Rightarrow> real" where
  "smallmij_spec vi vj W alpha =
     min_list (map (\<lambda>k. max 0 (dot (W ! k) (map (\<lambda>(a, b). a - b) (zip vj vi))) / alpha ! k)
                 [0..<length W])"

text \<open>
  \<open>get_delta\<close>: for every row \<open>vi\<close> of \<open>mu\<close> the inner loop runs over every row \<open>vj\<close> of
  \<open>mu\<close> and keeps \<^verbatim>\<open>delta_values[i] = max(delta_values[i], mij)\<close>, starting from the
  zero of \<open>np.zeros\<close>; the result is reshaped to one column.
\<close>

fun delta_inner :: "vec \<Rightarrow> vec list \<Rightarrow> matrix \<Rightarrow> ndarray \<Rightarrow> real \<Rightarrow> error + real" where
  "delta_inner vi [] W alpha_vec d = Inr d"
| "delta_inner vi (vj # rest) W alpha_vec d =
     (case get_smallmij vi vj W alpha_vec of
        Inl e \<Rightarrow> Inl e
      | Inr mij \<Rightarrow> delta_inner vi rest W alpha_vec (max d mij))"

fun delta_outer :: "vec list \<Rightarrow> vec list \<Rightarrow> matrix \<Rightarrow> ndarray \<Rightarrow> error + real list" where
  "delta_outer [] mu W alpha_vec = Inr []"
| "delta_outer (vi # rest) mu W alpha_vec =
     (case delta_inner vi mu W alpha_vec 0 of
        Inl e \<Rightarrow> Inl e
      | Inr d \<Rightarrow>
          (case delta_outer rest mu W alpha_vec of
             Inl e \<Rightarrow> Inl e
           | Inr ds \<Rightarrow> Inr (d # ds)))"

definition get_delta :: "vec list \<Rightarrow> matrix \<Rightarrow> ndarray \<Rightarrow> error + matrix" where
  "get_delta mu W alpha_vec =
     (case delta_outer mu mu W alpha_vec of
        Inl e \<Rightarrow> Inl e
      | Inr ds \<Rightarrow> Inr (map (\<lambda>d. [d]) ds))"

text \<open>The shapes and the positivity the statements about \<open>alpha_vec\<close> assume.\<close>

definition alpha_shape :: "nat \<Rightarrow> ndarray \<Rightarrow> bool" where
  "alpha_shape n a =
     (case a of
        Array1 xs \<Rightarrow> length xs = n
      | Array2 rows \<Rightarrow> length rows = n \<and> list_all (\<lambda>r. length r = 1) rows)"

definition alpha_positive :: "ndarray \<Rightarrow> bool" where
  "alpha_positive a =
     (case a of
        Array1 xs \<Rightarrow> list_all (\<lambda>x. 0 < x) xs
      | Array2 rows \<Rightarrow> list_all (list_all (\<lambda>x. 0 < x)) rows)"

section \<open>Scalars and vectors\<close>

text \<open>
  \<open>scale\<close> and \<open>slackness\<close> are arrays that the code accepts with zero or one dimension
  (\<^verbatim>\<open>np.array(1.0)\<close>, \<^verbatim>\<open>np.array(0.0)\<close> are the defaults). Against a one-dimensional
  operand a zero-dimensional array is applied to every entry.
\<close>

datatype array01 = Scalar real | Vector vec

fun np_size :: "array01 \<Rightarrow> nat" where
  "np_size (Scalar s) = 1"
| "np_size (Vector xs) = length xs"

fun vec_op :: "(real \<Rightarrow> real \<Rightarrow> real) \<Rightarrow> vec \<Rightarrow> array01 \<Rightarrow> error + vec" where
  "vec_op f xs (Scalar s) = Inr (map (\<lambda>x. f x s) xs)"
| "vec_op f xs (Vector ys) = broadcast f xs ys"

section \<open>The rectangular confidence region (confidence\_region.py)\<close>

record rect_region =
  lower :: vec
  upper :: vec
  intersect_iteratively :: bool

text \<open>
  \<open>RectangularConfidenceRegion.__init__\<close>. Explicit bounds are used only when both are
  given; they are asserted to have \<open>dim\<close> entries (\<open>n\<close> below) and to satisfy \<^verbatim>\<open>np.all(lower <= upper)\<close>.
  Otherwise the bounds are \<open>-1e12\<close> and \<open>1e12\<close> in every dimension.
\<close>

definition Rectangular_init ::
  "nat \<Rightarrow> vec option \<Rightarrow> vec option \<Rightarrow> bool \<Rightarrow> error + rect_region" where
  "Rectangular_init n lo up it =
     (case (lo, up) of
        (Some l, Some u) \<Rightarrow>
          if \<not> (length l = n \<and> length u = n) then Inl AssertionError
          else (case broadcast (\<lambda>a b. a \<le> b) l u of
                  Inl e \<Rightarrow> Inl e
                | Inr bs \<Rightarrow>
                    if np_all bs
                    then Inr \<lparr>lower = l, upper = u, intersect_iteratively = it\<rparr>
                    else Inl AssertionError)
      | _ \<Rightarrow>
          Inr \<lparr>lower = replicate n (- 1000000000000),
               upper = replicate n 1000000000000,
               intersect_iteratively = it\<rparr>)"

text \<open>
  A method that mutates the region returns the exception it raised, if any, together
  with the region as the call leaves it: an exception raised between two assignments
  leaves the first assignment in place.

  \<open>intersect\<close>: when \<open>hyperrectangle_check_intersection\<close> holds, \<open>self.lower\<close> becomes
  \<^verbatim>\<open>np.maximum(self.lower, lower)\<close> and then \<open>self.upper\<close> becomes
  \<^verbatim>\<open>np.minimum(self.upper, upper)\<close>; otherwise both bounds are replaced.
\<close>

definition Rectangular_intersect ::
  "rect_region \<Rightarrow> vec \<Rightarrow> vec \<Rightarrow> error option \<times> rect_region" where
  "Rectangular_intersect self lo up =
     (case hyperrectangle_check_intersection (lower self) (upper self) lo up of
        Inl e \<Rightarrow> (Some e, self)
      | Inr True \<Rightarrow>
          (case broadcast max (lower self) lo of
             Inl e \<Rightarrow> (Some e, self)
           | Inr l' \<Rightarrow>
               (case broadcast min (upper self) up of
                  Inl e \<Rightarrow> (Some e, self\<lparr>lower := l'\<rparr>)
                | Inr u' \<Rightarrow> (None, self\<lparr>lower := l', upper := u'\<rparr>)))
      | Inr False \<Rightarrow> (None, self\<lparr>lower := lo, upper := up\<rparr>))"

text \<open>
  A covariance matrix is a list of rows; it is square when every row has as many entries
  as there are rows. \<open>np.diag(covariance.squeeze())\<close>: \<open>squeeze\<close> removes the axes of
  length 1, so a \<open>1 \<times> 1\<close> matrix becomes a zero-dimensional array, on which \<open>np.diag\<close>
  raises ValueError; any other square matrix is unchanged and \<open>np.diag\<close> reads its diagonal.
\<close>

definition is_square :: "matrix \<Rightarrow> bool" where
  "is_square m = list_all (\<lambda>row. length row = length m) m"

definition np_diag :: "matrix \<Rightarrow> vec" where
  "np_diag m = map (\<lambda>i. m ! i ! i) [0..<length m]"

text \<open>
  \<open>RectangularConfidenceRegion.update\<close>:
  \<^verbatim>\<open>std = np.sqrt(np.diag(covariance.squeeze())); L = mean - std * scale; U = mean + std * scale\<close>,
  then \<open>self.intersect(L, U)\<close> or the plain assignment of \<open>L\<close> and \<open>U\<close>.
\<close>

definition Rectangular_update ::
  "rect_region \<Rightarrow> vec \<Rightarrow> matrix \<Rightarrow> array01 \<Rightarrow> error option \<times> rect_region" where
  "Rectangular_update self mean covariance scale =
     (if \<not> is_square covariance then (Some AssertionError, self)
      else if length covariance = 1 then (Some ValueError, self)
      else
        (case vec_op (\<lambda>a b. a * b) (map sqrt (np_diag covariance)) scale of
           Inl e \<Rightarrow> (Some e, self)
         | Inr ss \<Rightarrow>
             (case broadcast (\<lambda>a b. a - b) mean ss of
                Inl e \<Rightarrow> (Some e, self)
              | Inr L \<Rightarrow>
                  (case broadcast (\<lambda>a b. a + b) mean ss of
                     Inl e \<Rightarrow> (Some e, self)
                   | Inr U \<Rightarrow>
                       if intersect_iteratively self then Rectangular_intersect self L U
                       else (None, self\<lparr>lower := L, upper := U\<rparr>)))))"

text \<open>The invariant of the region: \<open>lower \<le> upper\<close> elementwise, with equal lengths.\<close>

definition rect_inv :: "rect_region \<Rightarrow> bool" where
  "rect_inv r = list_all2 (\<lambda>a b. a \<le> b) (lower r) (upper r)"

text \<open>
  The entry of \<open>scale\<close> that applies to dimension \<open>d\<close>, for a scalar or a vector with one
  entry per dimension; used to state what \<open>update\<close> computes.
\<close>

fun scale_at :: "array01 \<Rightarrow> nat \<Rightarrow> real" where
  "scale_at (Scalar s) d = s"
| "scale_at (Vector ys) d = ys ! d"

definition update_L :: "vec \<Rightarrow> matrix \<Rightarrow> array01 \<Rightarrow> vec" where
  "update_L mean covariance scale =
     map (\<lambda>d. mean ! d - sqrt (covariance ! d ! d) * scale_at scale d) [0..<length mean]"

definition update_U :: "vec \<Rightarrow> matrix \<Rightarrow> array01 \<Rightarrow> vec" where
  "update_U mean covariance scale =
     map (\<lambda>d. mean ! d + sqrt (covariance ! d ! d) * scale_at scale d) [0..<length mean]"

text \<open>\<open>scale >= 0\<close>, for a scalar or for every entry of a vector.\<close>

fun scale_nonneg :: "array01 \<Rightarrow> bool" where
  "scale_nonneg (Scalar s) = (0 \<le> s)"
| "scale_nonneg (Vector ys) = list_all (\<lambda>y. 0 \<le> y) ys"

section \<open>Orders and regions\<close>

text \<open>
  The class \<open>Order\<close> is not among the sources. The code uses two things of an order: the
  predicate \<open>order.dominates(p, q)\<close> and the cone matrix \<open>order.ordering_cone.W\<close>. Both are
  taken as given.
\<close>

record order =
  dominates :: "vec \<Rightarrow> vec \<Rightarrow> bool"
  cone_W :: matrix

text \<open>
  \<open>EllipsoidalConfidenceRegion\<close> holds \<open>center\<close>, \<open>sigma\<close> and \<open>alpha\<close>; \<open>update\<close> stores a
  scale of size 1 as \<open>alpha\<close>.
\<close>

record ellip_region =
  center :: vec
  sigma :: matrix
  alpha :: array01

text \<open>
  The objects the class methods and the dispatch helpers receive: an instance of one of
  the two region classes, or any other object (\<open>OtherRegion\<close>, with none of the attributes
  the methods read). Reading an attribute an object does not have raises AttributeError.
  A rectangular region has the property \<open>center\<close>, \<^verbatim>\<open>(self.lower + self.upper) / 2\<close>.
\<close>

datatype region = Rect rect_region | Ellip ellip_region | OtherRegion

fun region_lower :: "region \<Rightarrow> error + vec" where
  "region_lower (Rect r) = Inr (lower r)"
| "region_lower _ = Inl AttributeError"

fun region_upper :: "region \<Rightarrow> error + vec" where
  "region_upper (Rect r) = Inr (upper r)"
| "region_upper _ = Inl AttributeError"

fun region_center :: "region \<Rightarrow> error + vec" where
  "region_center (Rect r) =
     (case broadcast (\<lambda>a b. a + b) (lower r) (upper r) of
        Inl e \<Rightarrow> Inl e
      | Inr s \<Rightarrow> Inr (map (\<lambda>x. x / 2) s))"
| "region_center (Ellip e) = Inr (center e)"
| "region_center OtherRegion = Inl AttributeError"

fun region_sigma :: "region \<Rightarrow> error + matrix" where
  "region_sigma (Ellip e) = Inr (sigma e)"
| "region_sigma _ = Inl AttributeError"

fun region_alpha :: "region \<Rightarrow> error + array01" where
  "region_alpha (Ellip e) = Inr (alpha e)"
| "region_alpha _ = Inl AttributeError"

text \<open>
  \<open>EllipsoidalConfidenceRegion.update\<close>: both assertions, then the three assignments.
\<close>

definition Ellipsoidal_update ::
  "ellip_region \<Rightarrow> vec \<Rightarrow> matrix \<Rightarrow> array01 \<Rightarrow> error option \<times> ellip_region" where
  "Ellipsoidal_update self mean covariance scale =
     (if \<not> is_square covariance then (Some AssertionError, self)
      else if np_size scale \<noteq> 1 then (Some AssertionError, self)
      else (None, self\<lparr>center := mean, sigma := covariance, alpha := scale\<rparr>))"

subsection \<open>RectangularConfidenceRegion.is\_dominated\<close>

text \<open>
  The two nested loops over the vertices. The inner loop answers \<open>False\<close> when it hits
  \<^verbatim>\<open>return False\<close> and \<open>True\<close> when it runs to its end; \<open>vert2 + slackness\<close> may raise on a
  shape mismatch.
\<close>

fun dominated_inner :: "order \<Rightarrow> array01 \<Rightarrow> vec \<Rightarrow> vec list \<Rightarrow> error + bool" where
  "dominated_inner ord slackness vert1 [] = Inr True"
| "dominated_inner ord slackness vert1 (vert2 # rest) =
     (case vec_op (\<lambda>a b. a + b) vert2 slackness of
        Inl e \<Rightarrow> Inl e
      | Inr p \<Rightarrow>
          if \<not> dominates ord p vert1 then Inr False
          else dominated_inner ord slackness vert1 rest)"

fun dominated_outer :: "order \<Rightarrow> array01 \<Rightarrow> vec list \<Rightarrow> vec list \<Rightarrow> error + bool" where
  "dominated_outer ord slackness [] verts2 = Inr True"
| "dominated_outer ord slackness (vert1 # rest) verts2 =
     (case dominated_inner ord slackness vert1 verts2 of
        Inl e \<Rightarrow> Inl e
      | Inr False \<Rightarrow> Inr False
      | Inr True \<Rightarrow> dominated_outer ord slackness rest verts2)"

text \<open>
  The assertion \<^verbatim>\<open>np.array(slackness).size == 1 or slackness.size == len(obj1.lower)\<close>
  reads \<open>obj1.lower\<close> only when the size is not 1.
\<close>

definition Rectangular_is_dominated ::
  "order \<Rightarrow> region \<Rightarrow> region \<Rightarrow> array01 \<Rightarrow> error + bool" where
  "Rectangular_is_dominated ord obj1 obj2 slackness =
     (case (if np_size slackness = 1 then Inr True
            else (case region_lower obj1 of
                    Inl e \<Rightarrow> Inl e
                  | Inr l \<Rightarrow> Inr (np_size slackness = length l))) of
        Inl e \<Rightarrow> Inl e
      | Inr False \<Rightarrow> Inl AssertionError
      | Inr True \<Rightarrow>
          (case region_lower obj1 of Inl e \<Rightarrow> Inl e | Inr l1 \<Rightarrow>
          (case region_upper obj1 of Inl e \<Rightarrow> Inl e | Inr u1 \<Rightarrow>
          (case region_lower obj2 of Inl e \<Rightarrow> Inl e | Inr l2 \<Rightarrow>
          (case region_upper obj2 of Inl e \<Rightarrow> Inl e | Inr u2 \<Rightarrow>
             dominated_outer ord slackness
               (hyperrectangle_get_vertices l1 u1) (hyperrectangle_get_vertices l2 u2))))))"

text \<open>\<open>vert + slackness\<close> for a slackness whose shape fits the vertex.\<close>

fun plus_slack :: "vec \<Rightarrow> array01 \<Rightarrow> vec" where
  "plus_slack v (Scalar s) = map (\<lambda>x. x + s) v"
| "plus_slack v (Vector ys) = bc (\<lambda>a b. a + b) v ys"

section \<open>The conic solver\<close>

text \<open>
  The solver (cvxpy) is outside the repository. A problem is kept as the expression tree
  the code builds: variables, constants, the operations the code applies, the constraints
  and the objective that is minimised. Solving is a parameter: \<open>solve solver p\<close> stands
  for \<^verbatim>\<open>prob.solve()\<close> when \<open>solver\<close> is \<open>None\<close> and for \<^verbatim>\<open>prob.solve(solver=cp.SCS)\<close> when
  it is \<open>Some ''SCS''\<close>; it either raises or returns, and after it returned the problem
  carries a status (\<open>prob.status\<close>), an optimal value (\<open>prob.value\<close>: a number, an infinity
  or \<open>None\<close>) and a value for its variable (\<open>x.value\<close>, possibly \<open>None\<close>). cvxpy checks the
  shapes of an expression when it is built; the model leaves that check to \<open>solve\<close>, whose
  exceptions other than SolverError propagate exactly as one raised while building would.
  \<open>sqrtm_inv\<close> stands for \<^verbatim>\<open>sp.linalg.sqrtm(np.linalg.inv(sigma))\<close>, which may raise.
\<close>

datatype expr =
    Variable string nat
  | Const vec
  | ConstA array01
  | Number real
  | MatMul matrix expr
  | Dot vec expr
  | Add expr expr
  | Sub expr expr
  | Norm expr
  | Transpose expr

datatype constraint = Geq expr expr | Leq expr expr | SOC expr expr

record problem =
  minimize :: expr
  constraints :: "constraint list"

datatype pvalue = NoValue | Finite real | PosInf | NegInf

record solution =
  status :: "string option"
  prob_value :: pvalue
  x_value :: "vec option"

datatype solve_outcome = Raises error | Returns solution

record externals =
  solve :: "string option \<Rightarrow> problem \<Rightarrow> solve_outcome"
  sqrtm_inv :: "matrix \<Rightarrow> error + matrix"

text \<open>A bare \<^verbatim>\<open>prob.solve()\<close>: whatever it raises propagates.\<close>

definition solve_plain :: "externals \<Rightarrow> problem \<Rightarrow> error + solution" where
  "solve_plain ext p =
     (case solve ext None p of Raises e \<Rightarrow> Inl e | Returns s \<Rightarrow> Inr s)"

text \<open>
  The block the confidence-region methods repeat:
  \<^verbatim>\<open>try: prob.solve()\<close> \<^verbatim>\<open>except cp.error.SolverError: prob.solve(solver=cp.SCS)\<close>.
  Only SolverError is caught; what the second solve raises propagates.
\<close>

definition solve_retry_scs :: "externals \<Rightarrow> problem \<Rightarrow> error + solution" where
  "solve_retry_scs ext p =
     (case solve ext None p of
        Returns s \<Rightarrow> Inr s
      | Raises e \<Rightarrow>
          if e = SolverError
          then (case solve ext (Some ''SCS'') p of Raises e' \<Rightarrow> Inl e' | Returns s \<Rightarrow> Inr s)
          else Inl e)"

text \<open>\<open>W.shape[1]\<close>; a matrix given without rows is given no columns.\<close>

definition ncols :: "matrix \<Rightarrow> nat" where
  "ncols m = (case m of [] \<Rightarrow> 0 | row # _ \<Rightarrow> length row)"

definition np_eye :: "nat \<Rightarrow> matrix" where
  "np_eye n = map (\<lambda>i. map (\<lambda>j. if i = j then 1 else 0) [0..<n]) [0..<n]"

text \<open>
  \<open>hyperrectangle_get_region_matrix\<close>: \<^verbatim>\<open>np.vstack((np.eye(dim), -np.eye(dim)))\<close> and
  \<^verbatim>\<open>np.hstack((lower, -upper))\<close> with \<open>dim = len(lower)\<close>.
\<close>

definition hyperrectangle_get_region_matrix :: "vec \<Rightarrow> vec \<Rightarrow> matrix \<times> vec" where
  "hyperrectangle_get_region_matrix lo up =
     (np_eye (length lo) @ map (map uminus) (np_eye (length lo)), lo @ map uminus up)"

subsection \<open>utils.get\_alpha and utils.is\_covered\<close>

fun neg_value :: "pvalue \<Rightarrow> error + pvalue" where
  "neg_value NoValue = Inl TypeError"
| "neg_value (Finite r) = Inr (Finite (- r))"
| "neg_value PosInf = Inr NegInf"
| "neg_value NegInf = Inr PosInf"

text \<open>
  \<open>get_alpha\<close>: one second-order-cone constraint \<open>0 \<le> W[i] x\<close> per row and the unit ball,
  the objective \<open>-W[rind] x\<close>, one \<^verbatim>\<open>prob.solve()\<close>, and \<^verbatim>\<open>return -prob.value\<close>.
  A row index past the last row raises IndexError.
\<close>

definition get_alpha :: "externals \<Rightarrow> nat \<Rightarrow> matrix \<Rightarrow> error + pvalue" where
  "get_alpha ext rind W =
     (let D = ncols W; x = Variable ''x'' D in
      if \<not> rind < length W then Inl IndexError
      else
        (let f = map uminus (W ! rind);
             soc_constraints =
               map (\<lambda>row. SOC (Add (Dot row x) (Const [0]))
                              (Add (MatMul [replicate D 0] x) (Const [0]))) W
               @ [SOC (Add (Dot (replicate D 0) x) (Const [1]))
                      (Add (MatMul (np_eye D) x) (Const (replicate D 0)))]
         in (case solve_plain ext \<lparr>minimize = Dot f x, constraints = soc_constraints\<rparr> of
               Inl e \<Rightarrow> Inl e
             | Inr sol \<Rightarrow> neg_value (prob_value sol))))"

text \<open>
  \<open>is_covered(vi, vj, eps, W)\<close>: three constraints on \<open>x\<close>, one \<^verbatim>\<open>prob.solve()\<close>, and
  \<^verbatim>\<open>return x.value is not None\<close>.
\<close>

definition is_covered :: "externals \<Rightarrow> vec \<Rightarrow> vec \<Rightarrow> real \<Rightarrow> matrix \<Rightarrow> error + bool" where
  "is_covered ext vi vj eps W =
     (let x = Variable ''x'' (ncols W) in
      case broadcast (\<lambda>a b. a - b) vi vj of
        Inl e \<Rightarrow> Inl e
      | Inr diff \<Rightarrow>
          (case solve_plain ext
                  \<lparr>minimize = Number 0,
                   constraints =
                     [Geq (MatMul W x) (Number 0),
                      Leq (Norm (Add x (Const diff))) (Number eps),
                      Geq (MatMul W (Add x (Const diff))) (Number 0)]\<rparr> of
             Inl e \<Rightarrow> Inl e
           | Inr sol \<Rightarrow> Inr (x_value sol \<noteq> None)))"

subsection \<open>RectangularConfidenceRegion.is\_covered\<close>

definition Rectangular_cover_problem :: "matrix \<Rightarrow> vec \<Rightarrow> vec \<Rightarrow> vec \<Rightarrow> vec \<Rightarrow> array01 \<Rightarrow> problem" where
  "Rectangular_cover_problem cone_matrix l1 u1 l2 u2 slackness =
     (let m = ncols cone_matrix;
          z_point = Variable ''z_point'' m;
          z_point2 = Variable ''z_point2'' m;
          (obj1_matrix, obj1_boundary) = hyperrectangle_get_region_matrix l1 u1;
          (obj2_matrix, obj2_boundary) = hyperrectangle_get_region_matrix l2 u2
      in \<lparr>minimize = Number 0,
          constraints =
            [Geq (MatMul obj1_matrix z_point) (Const obj1_boundary),
             Geq (MatMul obj2_matrix z_point2) (Const obj2_boundary),
             Geq (MatMul cone_matrix (Sub (Sub z_point2 z_point) (ConstA slackness)))
                 (Number 0)]\<rparr>)"

text \<open>
  After the solve: \<^verbatim>\<open>if prob.status is None: return True\<close>, then
  \<^verbatim>\<open>return prob.status == "optimal"\<close>.
\<close>

definition Rectangular_is_covered ::
  "externals \<Rightarrow> order \<Rightarrow> region \<Rightarrow> region \<Rightarrow> array01 \<Rightarrow> error + bool" where
  "Rectangular_is_covered ext ord obj1 obj2 slackness =
     (if \<not> (np_size slackness = 1 \<or> np_size slackness = ncols (cone_W ord))
      then Inl AssertionError
      else
        (case region_lower obj1 of Inl e \<Rightarrow> Inl e | Inr l1 \<Rightarrow>
        (case region_upper obj1 of Inl e \<Rightarrow> Inl e | Inr u1 \<Rightarrow>
        (case region_lower obj2 of Inl e \<Rightarrow> Inl e | Inr l2 \<Rightarrow>
        (case region_upper obj2 of Inl e \<Rightarrow> Inl e | Inr u2 \<Rightarrow>
        (case solve_retry_scs ext
                (Rectangular_cover_problem (cone_W ord) l1 u1 l2 u2 slackness) of
           Inl e \<Rightarrow> Inl e
         | Inr sol \<Rightarrow>
             (case status sol of
                None \<Rightarrow> Inr True
              | Some s \<Rightarrow> Inr (s = ''optimal''))))))))"

subsection \<open>The ellipsoidal methods\<close>

text \<open>
  The membership constraint of an ellipsoid,
  \<^verbatim>\<open>cp.norm(sp.linalg.sqrtm(np.linalg.inv(obj.sigma)) @ (mu - obj.center).T) <= obj.alpha\<close>;
  the attributes are read in the order \<open>sigma\<close>, \<open>center\<close>, \<open>alpha\<close>.
\<close>

definition ellipsoid_constraint :: "externals \<Rightarrow> expr \<Rightarrow> region \<Rightarrow> error + constraint" where
  "ellipsoid_constraint ext mu obj =
     (case region_sigma obj of Inl e \<Rightarrow> Inl e | Inr sg \<Rightarrow>
     (case sqrtm_inv ext sg of Inl e \<Rightarrow> Inl e | Inr q \<Rightarrow>
     (case region_center obj of Inl e \<Rightarrow> Inl e | Inr c \<Rightarrow>
     (case region_alpha obj of Inl e \<Rightarrow> Inl e | Inr a \<Rightarrow>
        Inr (Leq (Norm (MatMul q (Transpose (Sub mu (Const c))))) (ConstA a))))))"

text \<open>\<open>prob.value < bound\<close>; comparing \<open>None\<close> with a number raises TypeError.\<close>

fun value_less :: "pvalue \<Rightarrow> real \<Rightarrow> error + bool" where
  "value_less NoValue b = Inl TypeError"
| "value_less (Finite v) b = Inr (v < b)"
| "value_less PosInf b = Inr False"
| "value_less NegInf b = Inr True"

text \<open>
  The loop of \<open>is_dominated\<close> over the rows of the cone matrix, each with its slackness
  entry: minimise \<open>W[n] (muy - mux)\<close>, and \<^verbatim>\<open>return False\<close> when the optimum is below
  \<open>-slackness[n]\<close>.
\<close>

fun dominated_rows ::
  "externals \<Rightarrow> constraint list \<Rightarrow> expr \<Rightarrow> (vec \<times> real) list \<Rightarrow> error + bool" where
  "dominated_rows ext cs d [] = Inr True"
| "dominated_rows ext cs d ((row, s) # rest) =
     (case solve_retry_scs ext \<lparr>minimize = Dot row d, constraints = cs\<rparr> of
        Inl e \<Rightarrow> Inl e
      | Inr sol \<Rightarrow>
          (case value_less (prob_value sol) (- s) of
             Inl e \<Rightarrow> Inl e
           | Inr True \<Rightarrow> Inr False
           | Inr False \<Rightarrow> dominated_rows ext cs d rest))"

text \<open>
  A slackness of size 1 is repeated once per row of the cone matrix
  (\<^verbatim>\<open>np.array([slackness] * cone_matrix.shape[0])\<close>); then its size is asserted to be the
  number of rows.
\<close>

fun slackness_entries :: "nat \<Rightarrow> array01 \<Rightarrow> vec" where
  "slackness_entries n (Scalar s) = replicate n s"
| "slackness_entries n (Vector ys) = (if length ys = 1 then replicate n (hd ys) else ys)"

definition Ellipsoidal_is_dominated ::
  "externals \<Rightarrow> order \<Rightarrow> region \<Rightarrow> region \<Rightarrow> array01 \<Rightarrow> error + bool" where
  "Ellipsoidal_is_dominated ext ord obj1 obj2 slackness =
     (case region_center obj1 of Inl e \<Rightarrow> Inl e | Inr c1 \<Rightarrow>
        (let output_dim = length c1;
             cone_matrix = cone_W ord;
             sl = slackness_entries (length cone_matrix) slackness;
             mux = Variable ''mux'' output_dim;
             muy = Variable ''muy'' output_dim
         in if length sl \<noteq> length cone_matrix then Inl AssertionError
            else
              (case ellipsoid_constraint ext mux obj1 of Inl e \<Rightarrow> Inl e | Inr cons1 \<Rightarrow>
              (case ellipsoid_constraint ext muy obj2 of Inl e \<Rightarrow> Inl e | Inr cons2 \<Rightarrow>
                 dominated_rows ext [cons1, cons2] (Sub muy mux) (zip cone_matrix sl)))))"

definition Ellipsoidal_check_dominates :: "order \<Rightarrow> region \<Rightarrow> region \<Rightarrow> error + bool" where
  "Ellipsoidal_check_dominates ord obj1 obj2 = Inl NotImplementedError"

text \<open>Python's \<open>sub in s\<close> for strings.\<close>

fun is_prefix :: "string \<Rightarrow> string \<Rightarrow> bool" where
  "is_prefix [] s = True"
| "is_prefix (c # cs) [] = False"
| "is_prefix (c # cs) (d # ds) = (c = d \<and> is_prefix cs ds)"

fun str_contains :: "string \<Rightarrow> string \<Rightarrow> bool" where
  "str_contains sub [] = (sub = [])"
| "str_contains sub (c # cs) = (is_prefix sub (c # cs) \<or> str_contains sub cs)"

text \<open>
  \<open>EllipsoidalConfidenceRegion.is_covered\<close>. After the solve:
  \<^verbatim>\<open>if "infeasible" in prob.status: return False\<close>, else \<^verbatim>\<open>return True\<close>; the test
  \<open>in\<close> raises TypeError when the status is \<open>None\<close>.
\<close>

definition Ellipsoidal_cover_problem ::
  "matrix \<Rightarrow> constraint \<Rightarrow> constraint \<Rightarrow> array01 \<Rightarrow> problem" where
  "Ellipsoidal_cover_problem cone_matrix cons1 cons2 slackness =
     (let output_dim = ncols cone_matrix;
          mux = Variable ''mux'' output_dim;
          muy = Variable ''muy'' output_dim
      in \<lparr>minimize = Number 0,
          constraints =
            [cons1, cons2, Geq (MatMul cone_matrix (Sub muy mux)) (ConstA slackness)]\<rparr>)"

definition Ellipsoidal_is_covered ::
  "externals \<Rightarrow> order \<Rightarrow> region \<Rightarrow> region \<Rightarrow> array01 \<Rightarrow> error + bool" where
  "Ellipsoidal_is_covered ext ord obj1 obj2 slackness =
     (let cone_matrix = cone_W ord;
          output_dim = ncols cone_matrix;
          mux = Variable ''mux'' output_dim;
          muy = Variable ''muy'' output_dim
      in if \<not> (np_size slackness = 1 \<or> np_size slackness = length cone_matrix)
         then Inl AssertionError
         else
           (case ellipsoid_constraint ext mux obj1 of Inl e \<Rightarrow> Inl e | Inr cons1 \<Rightarrow>
           (case ellipsoid_constraint ext muy obj2 of Inl e \<Rightarrow> Inl e | Inr cons2 \<Rightarrow>
           (case solve_retry_scs ext
                   (Ellipsoidal_cover_problem cone_matrix cons1 cons2 slackness) of
              Inl e \<Rightarrow> Inl e
            | Inr sol \<Rightarrow>
                (case status sol of
                   None \<Rightarrow> Inl TypeError
                 | Some s \<Rightarrow> Inr (\<not> str_contains ''infeasible'' s))))))"

subsection \<open>RectangularConfidenceRegion.check\_dominates\<close>

text \<open>
  \<open>line_seg_pt_intersect_at_dim\<close> divides NumPy numbers. When the segment is constant in
  the target dimension the divisor is zero: a nonzero numerator gives an infinity, which
  fails the range test (no intersection); a zero numerator gives NaN, which passes the
  range test and makes every coordinate of the returned point NaN. That point is
  \<open>NaNPoint\<close>: every comparison with it is false.
\<close>

datatype seg_point = NoIntersection | NaNPoint | Point vec

definition line_seg_pt_intersect_at_dim :: "vec \<Rightarrow> vec \<Rightarrow> vec \<Rightarrow> nat \<Rightarrow> seg_point" where
  "line_seg_pt_intersect_at_dim P1 P2 target_pt target_dim =
     (let num = target_pt ! target_dim - P1 ! target_dim;
          den = P2 ! target_dim - P1 ! target_dim
      in if den = 0 then (if num = 0 then NaNPoint else NoIntersection)
         else (let t = num / den
               in if t < 0 \<or> t > 1 then NoIntersection
                  else Point (map (\<lambda>(a, b). a + t * (b - a)) (zip P1 P2))))"

definition comp_func :: "bool \<Rightarrow> real \<Rightarrow> real \<Rightarrow> bool" where
  "comp_func invert_extension x y = (if invert_extension then x \<ge> y else x \<le> y)"

text \<open>The first loop: a vertex that compares to the point in every coordinate accepts it.\<close>

fun vertex_loop :: "bool \<Rightarrow> vec \<Rightarrow> vec list \<Rightarrow> error + bool" where
  "vertex_loop ie pt [] = Inr False"
| "vertex_loop ie pt (vert # rest) =
     (case broadcast (comp_func ie) vert pt of
        Inl e \<Rightarrow> Inl e
      | Inr bs \<Rightarrow> if np_all bs then Inr True else vertex_loop ie pt rest)"

text \<open>
  The edges collected for one dimension: all ordered pairs of distinct vertices whose
  coordinates in that dimension enclose the point's. The first pair already reads
  \<open>pt[dim_i]\<close>, which raises IndexError when the point is too short.
\<close>

definition edges_of_interest :: "vec \<Rightarrow> vec list \<Rightarrow> nat \<Rightarrow> error + (vec \<times> vec) list" where
  "edges_of_interest pt polytope dim_i =
     (if 2 \<le> length polytope \<and> \<not> dim_i < length pt then Inl IndexError
      else Inr (concat (map (\<lambda>i. concat (map (\<lambda>j.
                  if i = j then []
                  else if polytope ! i ! dim_i \<le> pt ! dim_i \<and> pt ! dim_i \<le> polytope ! j ! dim_i
                       then [(polytope ! i, polytope ! j)]
                       else [])
                [0..<length polytope])) [0..<length polytope])))"

text \<open>\<open>intersection is not None and comp_func(intersection, pt).all()\<close>.\<close>

fun accepts :: "bool \<Rightarrow> seg_point \<Rightarrow> vec \<Rightarrow> vec \<Rightarrow> error + bool" where
  "accepts ie NoIntersection P1 pt = Inr False"
| "accepts ie NaNPoint P1 pt =
     (case broadcast (\<lambda>a b. False) P1 pt of Inl e \<Rightarrow> Inl e | Inr bs \<Rightarrow> Inr (np_all bs))"
| "accepts ie (Point x) P1 pt =
     (case broadcast (comp_func ie) x pt of Inl e \<Rightarrow> Inl e | Inr bs \<Rightarrow> Inr (np_all bs))"

fun edge_loop :: "bool \<Rightarrow> vec \<Rightarrow> nat \<Rightarrow> (vec \<times> vec) list \<Rightarrow> error + bool" where
  "edge_loop ie pt dim_i [] = Inr False"
| "edge_loop ie pt dim_i ((P1, P2) # rest) =
     (case accepts ie (line_seg_pt_intersect_at_dim P1 P2 pt dim_i) P1 pt of
        Inl e \<Rightarrow> Inl e
      | Inr True \<Rightarrow> Inr True
      | Inr False \<Rightarrow> edge_loop ie pt dim_i rest)"

fun dim_loop :: "bool \<Rightarrow> vec \<Rightarrow> vec list \<Rightarrow> nat list \<Rightarrow> error + bool" where
  "dim_loop ie pt polytope [] = Inr False"
| "dim_loop ie pt polytope (dim_i # rest) =
     (case edges_of_interest pt polytope dim_i of
        Inl e \<Rightarrow> Inl e
      | Inr edges \<Rightarrow>
          (case edge_loop ie pt dim_i edges of
             Inl e \<Rightarrow> Inl e
           | Inr True \<Rightarrow> Inr True
           | Inr False \<Rightarrow> dim_loop ie pt polytope rest))"

definition is_pt_in_extended_polytope :: "vec \<Rightarrow> vec list \<Rightarrow> bool \<Rightarrow> error + bool" where
  "is_pt_in_extended_polytope pt polytope invert_extension =
     (case vertex_loop invert_extension pt polytope of
        Inl e \<Rightarrow> Inl e
      | Inr True \<Rightarrow> Inr True
      | Inr False \<Rightarrow> dim_loop invert_extension pt polytope [0..<ncols polytope])"

text \<open>
  \<open>vertices @ cone_matrix.transpose()\<close>: every vertex is mapped to its products with the
  rows of the cone matrix; a vertex whose length is not the number of columns raises
  ValueError.
\<close>

definition cone_transform :: "matrix \<Rightarrow> vec list \<Rightarrow> error + vec list" where
  "cone_transform cone_matrix verts =
     (if list_all (\<lambda>v. list_all (\<lambda>row. length row = length v) cone_matrix) verts
      then Inr (map (\<lambda>v. map (\<lambda>row. dot v row) cone_matrix) verts)
      else Inl ValueError)"

fun ref_point_loop :: "vec list \<Rightarrow> vec list \<Rightarrow> error + bool" where
  "ref_point_loop [] verts2 = Inr True"
| "ref_point_loop (ref_point # rest) verts2 =
     (case is_pt_in_extended_polytope ref_point verts2 False of
        Inl e \<Rightarrow> Inl e
      | Inr False \<Rightarrow> Inr False
      | Inr True \<Rightarrow> ref_point_loop rest verts2)"

definition Rectangular_check_dominates :: "order \<Rightarrow> region \<Rightarrow> region \<Rightarrow> error + bool" where
  "Rectangular_check_dominates ord obj1 obj2 =
     (case region_lower obj1 of Inl e \<Rightarrow> Inl e | Inr l1 \<Rightarrow>
     (case region_upper obj1 of Inl e \<Rightarrow> Inl e | Inr u1 \<Rightarrow>
     (case cone_transform (cone_W ord) (hyperrectangle_get_vertices l1 u1) of
        Inl e \<Rightarrow> Inl e | Inr verts1 \<Rightarrow>
     (case region_lower obj2 of Inl e \<Rightarrow> Inl e | Inr l2 \<Rightarrow>
     (case region_upper obj2 of Inl e \<Rightarrow> Inl e | Inr u2 \<Rightarrow>
     (case cone_transform (cone_W ord) (hyperrectangle_get_vertices l2 u2) of
        Inl e \<Rightarrow> Inl e | Inr verts2 \<Rightarrow>
          ref_point_loop verts1 verts2))))))"

subsection \<open>The dispatch helpers\<close>

text \<open>
  Each helper tests \<open>isinstance(region1, RectangularConfidenceRegion)\<close>, then
  \<open>isinstance(region1, EllipsoidalConfidenceRegion)\<close>, and raises NotImplementedError
  otherwise; \<open>region2\<close> is passed on as it is.
\<close>

definition confidence_region_is_dominated ::
  "externals \<Rightarrow> order \<Rightarrow> region \<Rightarrow> region \<Rightarrow> array01 \<Rightarrow> error + bool" where
  "confidence_region_is_dominated ext ord region1 region2 slackness =
     (case region1 of
        Rect r \<Rightarrow> Rectangular_is_dominated ord region1 region2 slackness
      | Ellip e \<Rightarrow> Ellipsoidal_is_dominated ext ord region1 region2 slackness
      | OtherRegion \<Rightarrow> Inl NotImplementedError)"

definition confidence_region_check_dominates ::
  "order \<Rightarrow> region \<Rightarrow> region \<Rightarrow> error + bool" where
  "confidence_region_check_dominates ord region1 region2 =
     (case region1 of
        Rect r \<Rightarrow> Rectangular_check_dominates ord region1 region2
      | Ellip e \<Rightarrow> Ellipsoidal_check_dominates ord region1 region2
      | OtherRegion \<Rightarrow> Inl NotImplementedError)"

definition confidence_region_is_covered ::
  "externals \<Rightarrow> order \<Rightarrow> region \<Rightarrow> region \<Rightarrow> array01 \<Rightarrow> error + bool" where
  "confidence_region_is_covered ext ord region1 region2 slackness =
     (case region1 of
        Rect r \<Rightarrow> Rectangular_is_covered ext ord region1 region2 slackness
      | Ellip e \<Rightarrow> Ellipsoidal_is_covered ext ord region1 region2 slackness
      | OtherRegion \<Rightarrow> Inl NotImplementedError)"

text \<open>
  A solver and a matrix routine that never raise NotImplementedError themselves: the
  condition under which a NotImplementedError can only come from the code modelled here.
\<close>

definition externals_implemented :: "externals \<Rightarrow> bool" where
  "externals_implemented ext =
     ((\<forall>s p. solve ext s p \<noteq> Raises NotImplementedError)
      \<and> (\<forall>m. sqrtm_inv ext m \<noteq> Inl NotImplementedError))"

section \<open>Broadcasting lemmas\<close>

lemma broadcast_same_length:
  "length xs = length ys \<Longrightarrow> broadcast f xs ys = Inr (map (\<lambda>(x, y). f x y) (zip xs ys))"
  by (simp add: broadcast_def broadcastable_def bc_def)

lemma np_any_map2_iff:
  "length xs = length ys \<Longrightarrow>
   np_any (map (\<lambda>(x, y). P x y) (zip xs ys)) \<longleftrightarrow> (\<exists>d < length xs. P (xs ! d) (ys ! d))"
  by (auto simp: np_any_def list_ex_iff set_zip)

section \<open>Intersection test\<close>

lemma check_intersection_same_length:
  assumes "length lower1 = D" "length upper1 = D" "length lower2 = D" "length upper2 = D"
  shows "hyperrectangle_check_intersection lower1 upper1 lower2 upper2 =
           Inr (\<forall>d < D. lower1 ! d < upper2 ! d \<and> lower2 ! d < upper1 ! d)"
proof -
  have a: "np_any (map (\<lambda>(x, y). x \<ge> y) (zip lower1 upper2))
             \<longleftrightarrow> (\<exists>d < D. lower1 ! d \<ge> upper2 ! d)"
    using np_any_map2_iff [of lower1 upper2 "\<lambda>x y. x \<ge> y"] assms by simp
  have b: "np_any (map (\<lambda>(x, y). x \<le> y) (zip upper1 lower2))
             \<longleftrightarrow> (\<exists>d < D. upper1 ! d \<le> lower2 ! d)"
    using np_any_map2_iff [of upper1 lower2 "\<lambda>x y. x \<le> y"] assms by simp
  show ?thesis
    unfolding hyperrectangle_check_intersection_def
    using assms a b by (auto simp: broadcast_same_length not_le)
qed


text \<open>
  Claim C2 (as amended). For boxes of one dimension \<open>D\<close>,
  \<open>hyperrectangle_check_intersection\<close> returns true exactly when, in every dimension, each
  box's lower bound is strictly below the other box's upper bound. Two boxes that share
  only a boundary face (in some dimension one box's lower bound equals the other box's
  upper bound) therefore make it return false, not true.
\<close>

theorem hyperrectangle_check_intersection_strict:
  assumes "length lower1 = D" "length upper1 = D" "length lower2 = D" "length upper2 = D"
  shows "hyperrectangle_check_intersection lower1 upper1 lower2 upper2 =
           Inr (\<forall>d < D. lower1 ! d < upper2 ! d \<and> lower2 ! d < upper1 ! d)
         \<and> ((\<exists>d < D. lower1 ! d = upper2 ! d \<or> upper1 ! d = lower2 ! d) \<longrightarrow>
              hyperrectangle_check_intersection lower1 upper1 lower2 upper2 = Inr False)"
  using check_intersection_same_length [OF assms] by auto

theorem hyperrectangle_check_intersection_strict_witness:
  "hyperrectangle_check_intersection [0, 0] [1, 1] [1/2, 1/2] [3/2, 3/2] = Inr True
   \<and> hyperrectangle_check_intersection [0, 0] [1, 1] [1, 0] [2, 1] = Inr False"
  using hyperrectangle_check_intersection_strict [of "[0, 0]" 2 "[1, 1]" "[1/2, 1/2]" "[3/2, 3/2]"]
    hyperrectangle_check_intersection_strict [of "[0, 0]" 2 "[1, 1]" "[1, 0]" "[2, 1]"]
  by (simp add: less_Suc_eq all_conj_distrib numeral_2_eq_2)

text \<open>
  The boxes \<open>[0,1] \<times> [0,1]\<close> and \<open>[1,2] \<times> [0,1]\<close> share the face \<open>x = 1\<close> and
  nothing else; the upper bound of the first equals the lower bound of the second in
  dimension 0, so \<^verbatim>\<open>np.any(upper1 <= lower2)\<close> holds and the function returns false.
\<close>

theorem hyperrectangle_check_intersection_face_counterexample:
  "list_all2 (\<le>) [0, 0] [1, 1::real] \<and> list_all2 (\<le>) [1, 0] [2, 1::real]
   \<and> [1, 1] ! 0 = ([1, 0] ! 0 :: real)
   \<and> hyperrectangle_check_intersection [0, 0] [1, 1] [1, 0] [2, 1] = Inr False"
  by (simp add: hyperrectangle_check_intersection_def broadcast_def broadcastable_def bc_def
      np_any_def)

section \<open>Vertex enumeration\<close>

lemma itertools_product_snoc:
  "itertools_product (pools @ [pool]) =
     concat (map (\<lambda>x. map (\<lambda>y. x @ [y]) pool) (itertools_product pools))"
  by (simp add: itertools_product_def)

lemma itertools_product_Nil: "itertools_product [] = [[]]"
  by (simp add: itertools_product_def)

lemma extend_pairs_length:
  "length (concat (map (\<lambda>x. [x @ [a], x @ [b]]) xs)) = 2 * length xs"
  by (induction xs) auto

lemma extend_pairs_nth:
  "k < 2 * length xs \<Longrightarrow>
   concat (map (\<lambda>x. [x @ [a], x @ [b]]) xs) ! k = xs ! (k div 2) @ [[a, b] ! (k mod 2)]"
proof (induction xs arbitrary: k)
  case Nil
  then show ?case by simp
next
  case (Cons x xs)
  show ?case
  proof (cases "k < 2")
    case True
    then have "k = 0 \<or> k = 1" by auto
    then show ?thesis by auto
  next
    case False
    then obtain k' where k': "k = k' + 2" by (metis add.commute le_add_diff_inverse not_less)
    with Cons.prems have "k' < 2 * length xs" by simp
    from Cons.IH [OF this] show ?thesis by (simp add: k')
  qed
qed

lemma vertices_snoc:
  "length lo = length up \<Longrightarrow>
   hyperrectangle_get_vertices (lo @ [l]) (up @ [u]) =
     concat (map (\<lambda>x. [x @ [l], x @ [u]]) (hyperrectangle_get_vertices lo up))"
  by (simp add: hyperrectangle_get_vertices_def itertools_product_snoc)

lemma vertices_length_nth:
  "length lo = length up \<Longrightarrow>
   length (hyperrectangle_get_vertices lo up) = 2 ^ length lo \<and>
   (\<forall>k < 2 ^ length lo. hyperrectangle_get_vertices lo up ! k = vertex_at lo up k)"
proof (induction lo arbitrary: up rule: rev_induct)
  case Nil
  then show ?case
    by (simp add: hyperrectangle_get_vertices_def itertools_product_Nil vertex_at_def)
next
  case (snoc l lo)
  then obtain up' u where up: "up = up' @ [u]" and len: "length lo = length up'"
    by (metis length_Suc_conv_rev)
  note IH = snoc.IH [OF len]
  let ?V = "hyperrectangle_get_vertices lo up'"
  have L: "length (hyperrectangle_get_vertices (lo @ [l]) up) = 2 ^ length (lo @ [l])"
    using IH by (simp add: up vertices_snoc [OF len] extend_pairs_length)
  have N: "hyperrectangle_get_vertices (lo @ [l]) up ! k = vertex_at (lo @ [l]) up k"
    if k: "k < 2 ^ length (lo @ [l])" for k
  proof -
    have k2: "k div 2 < 2 ^ length lo" using k by auto
    have kk: "k < 2 * length ?V" using k IH by simp
    have "hyperrectangle_get_vertices (lo @ [l]) up ! k = ?V ! (k div 2) @ [[l, u] ! (k mod 2)]"
      by (simp add: up vertices_snoc [OF len] extend_pairs_nth [OF kk])
    also have "?V ! (k div 2) = vertex_at lo up' (k div 2)"
      using IH k2 by simp
    also have "vertex_at lo up' (k div 2) @ [[l, u] ! (k mod 2)] = vertex_at (lo @ [l]) up k"
    proof -
      have a: "k div 2 div 2 ^ (n - Suc d) = k div 2 ^ (n - d)" if "d < n" for d n :: nat
      proof -
        have "n - d = Suc (n - Suc d)" using that by simp
        then show ?thesis by (simp add: div_mult2_eq)
      qed
      have b: "[l, u] ! (k mod 2) = (if odd k then u else l)"
        by (cases "even k") (auto simp: odd_iff_mod_2_eq_one)
      show ?thesis
        using len by (auto simp: vertex_at_def up nth_append a b)
    qed
    finally show ?thesis .
  qed
  from L N show ?case by blast
qed


text \<open>
  Claim C8. For \<open>D\<close>-dimensional \<open>lower \<le> upper\<close>, \<open>hyperrectangle_get_vertices\<close>
  returns exactly \<open>2 ^ D\<close> points of dimension \<open>D\<close>; the \<open>k\<close>-th point has in dimension
  \<open>d\<close> the value \<open>upper ! d\<close> when bit \<open>D - 1 - d\<close> of \<open>k\<close> (the \<open>d\<close>-th most significant
  of \<open>D\<close> bits) is set and \<open>lower ! d\<close> otherwise, and lies within the bounds.
\<close>

theorem hyperrectangle_get_vertices_binary_counter:
  assumes "length lo = D" "length up = D" "\<forall>d < D. lo ! d \<le> up ! d"
  shows "length (hyperrectangle_get_vertices lo up) = 2 ^ D
         \<and> (\<forall>k < 2 ^ D.
               length (hyperrectangle_get_vertices lo up ! k) = D
               \<and> (\<forall>d < D.
                     hyperrectangle_get_vertices lo up ! k ! d =
                       (if bit k (D - 1 - d) then up ! d else lo ! d)
                     \<and> lo ! d \<le> hyperrectangle_get_vertices lo up ! k ! d
                     \<and> hyperrectangle_get_vertices lo up ! k ! d \<le> up ! d))"
proof -
  have len: "length lo = length up" using assms by simp
  note V = vertices_length_nth [OF len]
  show ?thesis
    using V assms by (auto simp: vertex_at_def bit_iff_odd)
qed

theorem hyperrectangle_get_vertices_binary_counter_witness:
  "length (hyperrectangle_get_vertices [0, 0, 0] [1, 2, 3]) = 8
   \<and> hyperrectangle_get_vertices [0, 0, 0] [1, 2, 3] ! 5 = [1, 0, 3]"
proof -
  have h: "\<forall>d < 3. [0, 0, 0::real] ! d \<le> [1, 2, 3] ! d"
    by (simp add: less_Suc_eq numeral_3_eq_3)
  have e: "hyperrectangle_get_vertices [0, 0, 0] [1, 2, 3] ! 5 = [1, 0, 3]"
    by (simp add: hyperrectangle_get_vertices_def itertools_product_def)
  show ?thesis
    using hyperrectangle_get_vertices_binary_counter [of "[0, 0, 0]" 3 "[1, 2, 3]", OF _ _ h] e
    by simp
qed

section \<open>Gap statistics\<close>

lemma dot_zero_right: "\<forall>y \<in> set ys. y = 0 \<Longrightarrow> dot xs ys = 0"
proof (induction xs arbitrary: ys)
  case Nil
  then show ?case by (simp add: dot_def)
next
  case (Cons x xs)
  then show ?case by (cases ys) (auto simp: dot_def)
qed

lemma min_list_const: "xs \<noteq> [] \<Longrightarrow> \<forall>x \<in> set xs. x = c \<Longrightarrow> min_list xs = (c::real)"
proof -
  assume a: "xs \<noteq> []" and b: "\<forall>x \<in> set xs. x = c"
  then have "set xs = {c}" by (cases xs) auto
  then show ?thesis using a by (simp add: min_list_Min)
qed

lemma bc_all:
  assumes "\<And>x y. x \<in> set xs \<Longrightarrow> P (f x y)" "z \<in> set (bc f xs ys)"
  shows "P z"
proof (cases "length xs = length ys")
  case True
  with assms(2) obtain x y where "z = f x y" "x \<in> set xs"
    by (auto simp: bc_def dest: set_zip_leftD)
  then show ?thesis using assms(1) by simp
next
  case False
  show ?thesis
  proof (cases "length xs = 1")
    case True
    then have "hd xs \<in> set xs" by (cases xs) auto
    moreover from True False assms(2) obtain y where "z = f (hd xs) y"
      by (auto simp: bc_def)
    ultimately show ?thesis using assms(1) by simp
  next
    case n1: False
    with False assms(2) obtain x where "z = f x (hd ys)" "x \<in> set xs"
      by (auto simp: bc_def)
    then show ?thesis using assms(1) by simp
  qed
qed

lemma bc_length_col: "length ys = 1 \<Longrightarrow> length (bc f xs ys) = length xs"
  by (auto simp: bc_def)

lemma bc_length_same: "length xs = length ys \<Longrightarrow> length (bc f xs ys) = length xs"
  by (auto simp: bc_def)

lemma np_divide_ok:
  assumes "p \<noteq> []" "alpha_shape (length p) a"
  shows "\<exists>q. np_divide p a = Inr q \<and> (\<exists>m. np_min q = Inr m)"
proof (cases a)
  case (Array1 xs)
  then show ?thesis using assms
    by (auto simp: alpha_shape_def broadcast_def broadcastable_def bc_def)
next
  case (Array2 rows)
  with assms have r: "rows \<noteq> []" and c: "\<forall>r \<in> set rows. length r = 1"
    by (auto simp: alpha_shape_def list_all_iff)
  then obtain r rs where rows: "rows = r # rs" by (cases rows) auto
  with c have "length r = 1" by simp
  then have "bc (\<lambda>x y. x / y) p r \<noteq> []" using assms(1) bc_length_col [of r "\<lambda>x y. x / y" p] by auto
  then show ?thesis using Array2 rows by (simp add: broadcastable_def \<open>length r = 1\<close>)
qed

lemma bc_divide_zero:
  assumes "\<forall>x \<in> set xs. x = (0::real)" "z \<in> set (bc (\<lambda>x y. x / y) xs ys)"
  shows "z = 0"
proof (rule bc_all [where P = "\<lambda>z. z = 0" and f = "\<lambda>x y. x / y" and xs = xs and ys = ys])
  show "x / y = 0" if "x \<in> set xs" for x y using that assms(1) by simp
  show "z \<in> set (bc (\<lambda>x y. x / y) xs ys)" by (rule assms(2))
qed

lemma np_divide_zero:
  assumes "p \<noteq> []" "alpha_shape (length p) a" "\<forall>x \<in> set p. x = 0"
  shows "\<exists>q. np_divide p a = Inr q \<and> np_min q = Inr 0"
proof (cases a)
  case (Array1 xs)
  then have len: "length p = length xs" using assms by (simp add: alpha_shape_def)
  have z: "\<forall>z \<in> set (bc (\<lambda>x y. x / y) p xs). z = 0"
    using assms(3) bc_divide_zero by blast
  have "length (bc (\<lambda>x y. x / y) p xs) = length p" by (rule bc_length_same [OF len])
  then have ne: "bc (\<lambda>x y. x / y) p xs \<noteq> []" using assms(1) by auto
  have "min_list (bc (\<lambda>x y. x / y) p xs) = 0" using min_list_const [OF ne z] .
  then show ?thesis using Array1 len ne
    by (simp add: broadcast_def broadcastable_def)
next
  case (Array2 rows)
  with assms have r: "rows \<noteq> []" and c: "\<forall>r \<in> set rows. length r = 1"
    by (auto simp: alpha_shape_def list_all_iff)
  then obtain r rs where rows: "rows = r # rs" by (cases rows) auto
  with c have r1: "length r = 1" by simp
  then have ne: "bc (\<lambda>x y. x / y) p r \<noteq> []" using assms(1) bc_length_col [of r "\<lambda>x y. x / y" p] by auto
  have z: "\<forall>z \<in> set (concat (map (bc (\<lambda>x y. x / y) p) rows)). z = 0"
    using assms(3) bc_divide_zero by fastforce
  have ne': "concat (map (bc (\<lambda>x y. x / y) p) rows) \<noteq> []" using ne rows by simp
  have "min_list (concat (map (bc (\<lambda>x y. x / y) p) rows)) = 0"
    using min_list_const [OF ne' z] .
  then show ?thesis using Array2 rows ne' r1 by (simp add: broadcastable_def)
qed

lemma get_smallmij_ok:
  assumes "W \<noteq> []" "\<forall>row \<in> set W. length row = D" "length vi = D" "length vj = D"
    "alpha_shape (length W) a"
  shows "\<exists>m. get_smallmij vi vj W a = Inr m"
proof -
  let ?diff = "map (\<lambda>(a, b). a - b) (zip vj vi)"
  let ?p = "map (\<lambda>p. if p < 0 then 0 else p) (map (\<lambda>row. dot row ?diff) W)"
  have b: "broadcast (\<lambda>a b. a - b) vj vi = Inr ?diff"
    using assms by (simp add: broadcast_same_length)
  have m: "matmul_vec W ?diff = Inr (map (\<lambda>row. dot row ?diff) W)"
    using assms by (simp add: matmul_vec_def list_all_iff)
  have "?p \<noteq> []" "alpha_shape (length ?p) a" using assms by simp_all
  from np_divide_ok [OF this] obtain q m where "np_divide ?p a = Inr q" "np_min q = Inr m"
    by blast
  then show ?thesis by (simp add: get_smallmij_def b m)
qed

lemma get_smallmij_self:
  assumes "W \<noteq> []" "\<forall>row \<in> set W. length row = D" "length vi = D"
    "alpha_shape (length W) a"
  shows "get_smallmij vi vi W a = Inr 0"
proof -
  let ?diff = "map (\<lambda>(a, b). a - b) (zip vi vi)"
  let ?p = "map (\<lambda>p. if p < 0 then 0 else p) (map (\<lambda>row. dot row ?diff) W)"
  have b: "broadcast (\<lambda>a b. a - b) vi vi = Inr ?diff"
    by (simp add: broadcast_same_length)
  have m: "matmul_vec W ?diff = Inr (map (\<lambda>row. dot row ?diff) W)"
    using assms by (simp add: matmul_vec_def list_all_iff)
  have "\<forall>y \<in> set ?diff. y = 0" by (auto simp: set_zip)
  then have d0: "dot row ?diff = 0" for row by (rule dot_zero_right)
  have "?p \<noteq> []" "alpha_shape (length ?p) a" "\<forall>x \<in> set ?p. x = 0"
    using assms d0 by simp_all
  from np_divide_zero [OF this] obtain q where "np_divide ?p a = Inr q" "np_min q = Inr 0"
    by blast
  then show ?thesis by (simp add: get_smallmij_def b m)
qed

lemma Max_insert_max:
  "finite S \<Longrightarrow> Max (insert (max a b) S) = Max (insert a (insert b S))" for a b :: real
  by (cases "S = {}") (auto simp: max.assoc)

lemma delta_inner_Max:
  assumes "\<forall>vj \<in> set mus. get_smallmij vi vj W a = Inr (f vj)"
  shows "delta_inner vi mus W a d = Inr (Max (insert d (f ` set mus)))"
  using assms
proof (induction mus arbitrary: d)
  case Nil
  then show ?case by simp
next
  case (Cons vj mus)
  then have "delta_inner vi mus W a (max d (f vj)) = Inr (Max (insert (max d (f vj)) (f ` set mus)))"
    by simp
  then show ?case using Cons.prems by (simp add: Max_insert_max)
qed

lemma delta_outer_map:
  assumes "\<forall>vi \<in> set rows. delta_inner vi mu W a 0 = Inr (g vi)"
  shows "delta_outer rows mu W a = Inr (map g rows)"
  using assms by (induction rows) auto

lemma smallmij_values_image:
  assumes "\<forall>vj \<in> set mu. get_smallmij vi vj W a = Inr (f vj)"
  shows "{m. \<exists>j < length mu. get_smallmij vi (mu ! j) W a = Inr m} = f ` set mu"
proof
  show "{m. \<exists>j < length mu. get_smallmij vi (mu ! j) W a = Inr m} \<subseteq> f ` set mu"
    using assms by (auto simp: image_iff)
  show "f ` set mu \<subseteq> {m. \<exists>j < length mu. get_smallmij vi (mu ! j) W a = Inr m}"
    using assms by (fastforce simp: in_set_conv_nth)
qed

lemma get_delta_rows:
  assumes W: "W \<noteq> []" "\<forall>row \<in> set W. length row = D"
    and mu: "\<forall>v \<in> set mu. length v = D"
    and a: "alpha_shape (length W) a"
  defines "G \<equiv> \<lambda>vi. Max {m. \<exists>j < length mu. get_smallmij vi (mu ! j) W a = Inr m}"
  shows "get_delta mu W a = Inr (map (\<lambda>i. [G (mu ! i)]) [0..<length mu])"
    and "\<forall>i < length mu. 0 \<le> G (mu ! i) \<and>
           (\<forall>j < length mu. \<exists>m. get_smallmij (mu ! i) (mu ! j) W a = Inr m \<and> m \<le> G (mu ! i))"
proof -
  define F where "F vi vj = projr (get_smallmij vi vj W a)" for vi vj
  have ok: "get_smallmij vi vj W a = Inr (F vi vj)" if "vi \<in> set mu" "vj \<in> set mu" for vi vj
  proof -
    from that mu have "length vi = D" "length vj = D" by auto
    from get_smallmij_ok [OF W this a] show ?thesis by (auto simp: F_def)
  qed
  have self: "F vi vi = 0" if "vi \<in> set mu" for vi
  proof -
    from that mu have "length vi = D" by auto
    from get_smallmij_self [OF W this a] show ?thesis by (simp add: F_def)
  qed
  have Gimg: "G vi = Max (F vi ` set mu)" if "vi \<in> set mu" for vi
  proof -
    have "\<forall>vj \<in> set mu. get_smallmij vi vj W a = Inr (F vi vj)" using ok [OF that] by blast
    from smallmij_values_image [OF this] show ?thesis unfolding G_def by (rule arg_cong)
  qed
  have inner: "delta_inner vi mu W a 0 = Inr (G vi)" if "vi \<in> set mu" for vi
  proof -
    have "\<forall>vj \<in> set mu. get_smallmij vi vj W a = Inr (F vi vj)" using ok [OF that] by blast
    then have "delta_inner vi mu W a 0 = Inr (Max (insert 0 (F vi ` set mu)))"
      by (rule delta_inner_Max)
    moreover have "0 \<in> F vi ` set mu"
      using self [OF that] that by (metis image_eqI)
    then have "insert 0 (F vi ` set mu) = F vi ` set mu" by (rule insert_absorb)
    ultimately show ?thesis using Gimg [OF that] by simp
  qed
  have "\<forall>vi \<in> set mu. delta_inner vi mu W a 0 = Inr (G vi)" using inner by blast
  then have "delta_outer mu mu W a = Inr (map G mu)"
    by (rule delta_outer_map)
  moreover have "map (\<lambda>d. [d]) (map G mu) = map (\<lambda>i. [G (mu ! i)]) [0..<length mu]"
    by (rule nth_equalityI) simp_all
  ultimately show "get_delta mu W a = Inr (map (\<lambda>i. [G (mu ! i)]) [0..<length mu])"
    by (simp add: get_delta_def)
  show "\<forall>i < length mu. 0 \<le> G (mu ! i) \<and>
           (\<forall>j < length mu. \<exists>m. get_smallmij (mu ! i) (mu ! j) W a = Inr m \<and> m \<le> G (mu ! i))"
  proof (intro allI impI conjI)
    fix i assume i: "i < length mu"
    then have vi: "mu ! i \<in> set mu" by simp
    have "F (mu ! i) (mu ! i) \<le> Max (F (mu ! i) ` set mu)"
      using vi by (intro Max_ge) auto
    then show "0 \<le> G (mu ! i)" using self [OF vi] Gimg [OF vi] by simp
    fix j assume j: "j < length mu"
    then have vj: "mu ! j \<in> set mu" by simp
    have "F (mu ! i) (mu ! j) \<le> Max (F (mu ! i) ` set mu)"
      using vj by (intro Max_ge) auto
    then show "\<exists>m. get_smallmij (mu ! i) (mu ! j) W a = Inr m \<and> m \<le> G (mu ! i)"
      using ok [OF vi vj] Gimg [OF vi] by simp
  qed
qed



text \<open>
  Claim C3. For points \<open>mu\<close> of dimension \<open>D\<close>, a cone matrix \<open>W\<close> with at least one row
  and \<open>D\<close> columns and a positive \<open>alpha_vec\<close> with one entry per row of \<open>W\<close> (flat or
  as one column), \<open>get_delta\<close> returns the column whose entry \<open>i\<close> is the maximum over
  all \<open>j\<close> (including \<open>j = i\<close>) of \<open>get_smallmij (mu ! i) (mu ! j) W alpha_vec\<close>; every
  entry is nonnegative and bounds each \<open>get_smallmij (mu ! i) (mu ! j) W alpha_vec\<close>, all
  of which return without an exception.
\<close>

theorem get_delta_max_over_pairs:
  assumes "W \<noteq> []" "\<forall>row \<in> set W. length row = D" "\<forall>v \<in> set mu. length v = D"
    "alpha_shape (length W) alpha_vec" "alpha_positive alpha_vec"
  shows "get_delta mu W alpha_vec =
           Inr (map (\<lambda>i. [Max {m. \<exists>j < length mu.
                                 get_smallmij (mu ! i) (mu ! j) W alpha_vec = Inr m}])
                  [0..<length mu])
         \<and> (\<forall>i < length mu.
               0 \<le> Max {m. \<exists>j < length mu. get_smallmij (mu ! i) (mu ! j) W alpha_vec = Inr m}
               \<and> (\<forall>j < length mu. \<exists>m.
                     get_smallmij (mu ! i) (mu ! j) W alpha_vec = Inr m
                     \<and> m \<le> Max {m. \<exists>j < length mu.
                                   get_smallmij (mu ! i) (mu ! j) W alpha_vec = Inr m}))"
  using get_delta_rows [OF assms(1-4)] by simp



theorem get_delta_max_over_pairs_witness:
  "get_delta [[1, 0], [2, 3]] [[1, 0], [0, 1]] (Array2 [[1], [2]]) = Inr [[1/2], [0]]
   \<and> Max {m. \<exists>j < length [[1, 0], [2, 3::real]].
          get_smallmij ([[1, 0], [2, 3]] ! 0) ([[1, 0], [2, 3]] ! j) [[1, 0], [0, 1]]
            (Array2 [[1], [2]]) = Inr m} = 1/2"
proof -
  have e: "get_delta [[1, 0], [2, 3]] [[1, 0], [0, 1]] (Array2 [[1], [2]]) = Inr [[1/2], [0]]"
    by (simp add: get_delta_def get_smallmij_def broadcast_def broadcastable_def bc_def
        matmul_vec_def dot_def)
  have h: "alpha_shape (length [[1, 0], [0, 1::real]]) (Array2 [[1], [2]])"
    "alpha_positive (Array2 [[1], [2]])"
    by (simp_all add: alpha_shape_def alpha_positive_def)
  have "get_delta [[1, 0], [2, 3]] [[1, 0], [0, 1]] (Array2 [[1], [2]]) =
      Inr (map (\<lambda>i. [Max {m. \<exists>j < length [[1, 0], [2, 3::real]].
            get_smallmij ([[1, 0], [2, 3]] ! i) ([[1, 0], [2, 3]] ! j) [[1, 0], [0, 1]]
              (Array2 [[1], [2]]) = Inr m}]) [0..<length [[1, 0], [2, 3::real]]])"
    using get_delta_max_over_pairs [of "[[1, 0], [0, 1]]" 2 "[[1, 0], [2, 3]]" "Array2 [[1], [2]]"] h
    by simp
  with e show ?thesis by (simp add: numeral_2_eq_2)
qed

text \<open>
  With a flat \<open>alpha_vec\<close> of shape \<open>(n,)\<close> the quotient is taken row by row and
  \<open>get_smallmij\<close> is the formula of the specification.
\<close>

lemma get_smallmij_flat_alpha:
  assumes "W \<noteq> []" "\<forall>row \<in> set W. length row = D" "length vi = D" "length vj = D"
    "length av = length W"
  shows "get_smallmij vi vj W (Array1 av) = Inr (smallmij_spec vi vj W av)"
proof -
  let ?diff = "map (\<lambda>(a, b). a - b) (zip vj vi)"
  let ?p = "map (\<lambda>p. if p < 0 then 0 else p) (map (\<lambda>row. dot row ?diff) W)"
  let ?q = "map (\<lambda>k. max 0 (dot (W ! k) ?diff) / av ! k) [0..<length W]"
  have b: "broadcast (\<lambda>a b. a - b) vj vi = Inr ?diff"
    using assms by (simp add: broadcast_same_length)
  have m: "matmul_vec W ?diff = Inr (map (\<lambda>row. dot row ?diff) W)"
    using assms by (simp add: matmul_vec_def list_all_iff)
  have len: "length ?p = length av" using assms by simp
  have "map (\<lambda>(x, y). x / y) (zip ?p av) = ?q"
    using assms(5) by (intro nth_equalityI) (auto simp: max_def)
  then have d: "broadcast (\<lambda>x y. x / y) ?p av = Inr ?q"
    using len by (simp add: broadcast_same_length)
  have ne: "?q \<noteq> []" using assms(1) by simp
  show ?thesis
    using ne by (simp add: get_smallmij_def b m d smallmij_spec_def del: map_map)
qed

text \<open>
  Claim C6 says that \<open>get_smallmij\<close> equals the minimum over the rows \<open>k\<close> of
  \<open>max(0, (W(vj - vi))_k) / alpha_k\<close> for every positive \<open>alpha_vec\<close> with one entry per row.
  With \<open>alpha_vec\<close> in its documented shape \<open>(n, 1)\<close>, the shape \<open>get_alpha_vec\<close> returns,
  \<open>prod / alpha_vec\<close> is the \<open>n \<times> n\<close> table of all quotients \<open>prod[l] / alpha_vec[k]\<close> and
  \<open>min\<close> runs over the whole table. For the cone with rows \<open>(1,0)\<close>, \<open>(0,1)\<close>,
  \<open>(-3/5,4/5)\<close>, whose constants are \<open>4/5\<close>, \<open>1\<close>, \<open>4/5\<close>, and \<open>vj - vi = (1,2)\<close> the code
  returns \<open>1\<close> where the formula gives \<open>5/4\<close>; the flat shape gives \<open>5/4\<close>.
\<close>

theorem get_smallmij_column_alpha_divergence:
  "get_smallmij [0, 0] [1, 2] [[1, 0], [0, 1], [- 3/5, 4/5]] (Array2 [[4/5], [1], [4/5]]) = Inr 1
   \<and> smallmij_spec [0, 0] [1, 2] [[1, 0], [0, 1], [- 3/5, 4/5]] [4/5, 1, 4/5] = 5/4
   \<and> get_smallmij [0, 0] [1, 2] [[1, 0], [0, 1], [- 3/5, 4/5]] (Array1 [4/5, 1, 4/5]) = Inr (5/4)"
  by (simp add: get_smallmij_def broadcast_def broadcastable_def bc_def matmul_vec_def dot_def
      smallmij_spec_def upt_rec numeral_3_eq_3)

section \<open>Updating a rectangular region\<close>

lemma map2_eq_map_upt:
  "length xs = n \<Longrightarrow> length ys = n \<Longrightarrow>
   map (\<lambda>(x, y). f x y) (zip xs ys) = map (\<lambda>d. f (xs ! d) (ys ! d)) [0..<n]"
  by (rule nth_equalityI) simp_all

lemma update_std_scale:
  assumes "length covariance = D" "scale = Scalar s \<or> (\<exists>ys. scale = Vector ys \<and> length ys = D)"
  shows "vec_op (\<lambda>a b. a * b) (map sqrt (np_diag covariance)) scale =
           Inr (map (\<lambda>d. sqrt (covariance ! d ! d) * scale_at scale d) [0..<D])"
proof -
  have len: "length (map sqrt (np_diag covariance)) = D" using assms(1) by (simp add: np_diag_def)
  from assms(2) show ?thesis
  proof
    assume "scale = Scalar s"
    then show ?thesis using assms(1) by (simp add: np_diag_def)
  next
    assume "\<exists>ys. scale = Vector ys \<and> length ys = D"
    then obtain ys where ys: "scale = Vector ys" "length ys = D" by blast
    have "broadcast (\<lambda>a b. a * b) (map sqrt (np_diag covariance)) ys =
            Inr (map (\<lambda>(x, y). x * y) (zip (map sqrt (np_diag covariance)) ys))"
      using len ys(2) by (simp add: broadcast_same_length)
    also have "map (\<lambda>(x, y). x * y) (zip (map sqrt (np_diag covariance)) ys) =
            map (\<lambda>d. map sqrt (np_diag covariance) ! d * ys ! d) [0..<D]"
      using len ys(2) by (rule map2_eq_map_upt)
    also have "\<dots> = map (\<lambda>d. sqrt (covariance ! d ! d) * scale_at scale d) [0..<D]"
      using assms(1) ys by (simp add: np_diag_def)
    finally show ?thesis using ys(1) by simp
  qed
qed

lemma update_bounds:
  assumes "length mean = D" "length covariance = D"
    "scale = Scalar s \<or> (\<exists>ys. scale = Vector ys \<and> length ys = D)"
  defines "ss \<equiv> map (\<lambda>d. sqrt (covariance ! d ! d) * scale_at scale d) [0..<D]"
  shows "broadcast (\<lambda>a b. a - b) mean ss = Inr (update_L mean covariance scale)"
    and "broadcast (\<lambda>a b. a + b) mean ss = Inr (update_U mean covariance scale)"
proof -
  have len: "length ss = D" by (simp add: ss_def)
  have "map (\<lambda>(x, y). x - y) (zip mean ss) = map (\<lambda>d. mean ! d - ss ! d) [0..<D]"
    using assms(1) len by (rule map2_eq_map_upt)
  also have "\<dots> = update_L mean covariance scale"
    using assms(1) by (simp add: update_L_def ss_def)
  finally show "broadcast (\<lambda>a b. a - b) mean ss = Inr (update_L mean covariance scale)"
    using assms(1) len by (simp add: broadcast_same_length)
  have "map (\<lambda>(x, y). x + y) (zip mean ss) = map (\<lambda>d. mean ! d + ss ! d) [0..<D]"
    using assms(1) len by (rule map2_eq_map_upt)
  also have "\<dots> = update_U mean covariance scale"
    using assms(1) by (simp add: update_U_def ss_def)
  finally show "broadcast (\<lambda>a b. a + b) mean ss = Inr (update_U mean covariance scale)"
    using assms(1) len by (simp add: broadcast_same_length)
qed

lemma intersect_same_length:
  assumes "length (lower self) = D" "length (upper self) = D" "length L = D" "length U = D"
  shows "Rectangular_intersect self L U =
           (None,
            if hyperrectangle_check_intersection (lower self) (upper self) L U = Inr True
            then self\<lparr>lower := map (\<lambda>d. max (lower self ! d) (L ! d)) [0..<D],
                      upper := map (\<lambda>d. min (upper self ! d) (U ! d)) [0..<D]\<rparr>
            else self\<lparr>lower := L, upper := U\<rparr>)"
proof -
  obtain b where b: "hyperrectangle_check_intersection (lower self) (upper self) L U = Inr b"
    using check_intersection_same_length [OF assms] by blast
  have mx: "broadcast max (lower self) L = Inr (map (\<lambda>d. max (lower self ! d) (L ! d)) [0..<D])"
    using assms map2_eq_map_upt [of "lower self" D L max] by (simp add: broadcast_same_length)
  have mn: "broadcast min (upper self) U = Inr (map (\<lambda>d. min (upper self ! d) (U ! d)) [0..<D])"
    using assms map2_eq_map_upt [of "upper self" D U min] by (simp add: broadcast_same_length)
  show ?thesis
    by (cases b) (simp_all add: Rectangular_intersect_def b mx mn)
qed

lemma update_returns_bounds:
  assumes "length (lower self) = D" "length (upper self) = D" "length mean = D"
    "is_square covariance" "length covariance = D" "D \<noteq> 1"
    "scale = Scalar s \<or> (\<exists>ys. scale = Vector ys \<and> length ys = D)"
    "\<forall>d < D. 0 \<le> covariance ! d ! d"
  shows "Rectangular_update self mean covariance scale =
           (None,
            if intersect_iteratively self \<and>
               hyperrectangle_check_intersection (lower self) (upper self)
                 (update_L mean covariance scale) (update_U mean covariance scale) = Inr True
            then self\<lparr>lower := map (\<lambda>d. max (lower self ! d) (update_L mean covariance scale ! d))
                                 [0..<D],
                      upper := map (\<lambda>d. min (upper self ! d) (update_U mean covariance scale ! d))
                                 [0..<D]\<rparr>
            else self\<lparr>lower := update_L mean covariance scale,
                      upper := update_U mean covariance scale\<rparr>)"
proof -
  have lL: "length (update_L mean covariance scale) = D" "length (update_U mean covariance scale) = D"
    using assms(3) by (simp_all add: update_L_def update_U_def)
  note i = intersect_same_length [OF assms(1,2) lL]
  show ?thesis
    unfolding Rectangular_update_def
    using assms(4,5,6) update_std_scale [OF assms(5,7)] update_bounds [OF assms(3,5,7)] i
    by simp
qed


text \<open>
  What \<open>update\<close> leaves when it returns. Let \<open>L = mean - sqrt(diag(covariance)) * scale\<close>
  and \<open>U = mean + sqrt(diag(covariance)) * scale\<close> (\<open>update_L\<close>, \<open>update_U\<close>), for a region and
  a mean of dimension \<open>D\<close>, a square \<open>D \<times> D\<close> covariance with nonnegative diagonal and a
  scale that is a scalar or has \<open>D\<close> entries. With \<open>intersect_iteratively\<close> the region holds
  the coordinatewise maximum of the lower bounds and minimum of the upper bounds when
  \<open>hyperrectangle_check_intersection\<close> holds of the current box and \<open>[L, U]\<close>, and exactly
  \<open>L\<close> and \<open>U\<close> when it does not; without \<open>intersect_iteratively\<close>, exactly \<open>L\<close> and \<open>U\<close>.
  The call returns whenever \<open>D \<noteq> 1\<close>.
\<close>

lemma update_bounds_when_returned:
  assumes "length (lower self) = D" "length (upper self) = D" "length mean = D"
    "is_square covariance" "length covariance = D"
    "scale = Scalar s \<or> (\<exists>ys. scale = Vector ys \<and> length ys = D)"
    "\<forall>d < D. 0 \<le> covariance ! d ! d"
  shows "(D \<noteq> 1 \<longrightarrow> fst (Rectangular_update self mean covariance scale) = None)
         \<and> (fst (Rectangular_update self mean covariance scale) = None \<longrightarrow>
              snd (Rectangular_update self mean covariance scale) =
                (if intersect_iteratively self \<and>
                    hyperrectangle_check_intersection (lower self) (upper self)
                      (update_L mean covariance scale) (update_U mean covariance scale) = Inr True
                 then self\<lparr>lower := map (\<lambda>d. max (lower self ! d)
                                                    (update_L mean covariance scale ! d)) [0..<D],
                           upper := map (\<lambda>d. min (upper self ! d)
                                                    (update_U mean covariance scale ! d)) [0..<D]\<rparr>
                 else self\<lparr>lower := update_L mean covariance scale,
                           upper := update_U mean covariance scale\<rparr>))"
proof (cases "D = 1")
  case True
  then show ?thesis using assms(4,5) by (simp add: Rectangular_update_def)
next
  case False
  show ?thesis
    using update_returns_bounds [OF assms(1-5) False assms(6,7)] by simp
qed

lemma update_bounds_examples:
  "Rectangular_update \<lparr>lower = [0, 0], upper = [2, 2], intersect_iteratively = True\<rparr>
     [2, 2] [[4, 0], [0, 4]] (Scalar (1/2)) =
   (None, \<lparr>lower = [1, 1], upper = [2, 2], intersect_iteratively = True\<rparr>)
   \<and> Rectangular_update \<lparr>lower = [0, 0], upper = [1, 1], intersect_iteratively = True\<rparr>
     [5, 5] [[4, 0], [0, 4]] (Scalar (1/2)) =
   (None, \<lparr>lower = [4, 4], upper = [6, 6], intersect_iteratively = True\<rparr>)"
proof -
  have s: "sqrt 4 = 2" by simp
  have L: "update_L [2, 2] [[4, 0], [0, 4]] (Scalar (1/2)) = [1, 1]"
    "update_U [2, 2] [[4, 0], [0, 4]] (Scalar (1/2)) = [3, 3]"
    "update_L [5, 5] [[4, 0], [0, 4]] (Scalar (1/2)) = [4, 4]"
    "update_U [5, 5] [[4, 0], [0, 4]] (Scalar (1/2)) = [6, 6]"
    by (simp_all add: update_L_def update_U_def s upt_rec)
  have c: "hyperrectangle_check_intersection [0, 0] [2, 2] [1, 1] [3, 3] = Inr True"
    "hyperrectangle_check_intersection [0, 0] [1, 1] [4, 4] [6, 6] = Inr False"
    by (simp_all add: hyperrectangle_check_intersection_def broadcast_def broadcastable_def
        bc_def np_any_def)
  have q: "is_square [[4, 0], [0, 4::real]]" by (simp add: is_square_def)
  have n: "\<forall>d < 2. 0 \<le> [[4, 0], [0, 4::real]] ! d ! d"
    by (simp add: less_Suc_eq numeral_2_eq_2)
  show ?thesis
    using update_bounds_when_returned [of "\<lparr>lower = [0, 0], upper = [2, 2], intersect_iteratively = True\<rparr>"
        2 "[2, 2]" "[[4, 0], [0, 4]]" "Scalar (1/2)" "1/2", OF _ _ _ q _ _ n]
      update_bounds_when_returned [of "\<lparr>lower = [0, 0], upper = [1, 1], intersect_iteratively = True\<rparr>"
        2 "[5, 5]" "[[4, 0], [0, 4]]" "Scalar (1/2)" "1/2", OF _ _ _ q _ _ n]
    by (simp add: L c upt_rec prod_eq_iff)
qed

text \<open>
  A region of one dimension: every update with a \<open>1 \<times> 1\<close> covariance raises ValueError
  and leaves the region as it was, since \<open>squeeze\<close> turns the covariance into a
  zero-dimensional array and \<open>np.diag\<close> rejects it.
\<close>

lemma update_one_dimension_raises:
  "Rectangular_update self mean [[c]] scale = (Some ValueError, self)"
  by (simp add: Rectangular_update_def is_square_def)

text \<open>
  Claim C5 says that after \<open>update(mean, covariance, scale)\<close> the bounds are the
  intersection of the current box with \<open>[L, U]\<close> when the two overlap and
  \<open>intersect_iteratively\<close> is set, and exactly \<open>L\<close> and \<open>U\<close> otherwise, where
  \<open>L = mean - sqrt(diag(covariance)) * scale\<close> and \<open>U = mean + sqrt(diag(covariance)) * scale\<close>.
  For the freshly constructed region of dimension 1, the mean \<open>2\<close>, the covariance
  \<open>[[4]]\<close> and the scale \<open>1\<close> give \<open>L = [0]\<close> and \<open>U = [4]\<close>, but the code raises ValueError
  and the bounds stay at \<open>-1e12\<close> and \<open>1e12\<close>, with or without \<open>intersect_iteratively\<close>.
\<close>

theorem Rectangular_update_one_dimension_raises:
  "Rectangular_init 1 None None False =
     Inr \<lparr>lower = [- 1000000000000], upper = [1000000000000], intersect_iteratively = False\<rparr>
   \<and> update_L [2] [[4]] (Scalar 1) = [0]
   \<and> update_U [2] [[4]] (Scalar 1) = [4]
   \<and> Rectangular_update
       \<lparr>lower = [- 1000000000000], upper = [1000000000000], intersect_iteratively = False\<rparr>
       [2] [[4]] (Scalar 1) =
     (Some ValueError,
      \<lparr>lower = [- 1000000000000], upper = [1000000000000], intersect_iteratively = False\<rparr>)
   \<and> Rectangular_update
       \<lparr>lower = [- 1000000000000], upper = [1000000000000], intersect_iteratively = True\<rparr>
       [2] [[4]] (Scalar 1) =
     (Some ValueError,
      \<lparr>lower = [- 1000000000000], upper = [1000000000000], intersect_iteratively = True\<rparr>)"
proof -
  have s: "sqrt 4 = 2" by simp
  show ?thesis
    by (simp add: Rectangular_init_def update_L_def update_U_def s Rectangular_update_def
        is_square_def)
qed

section \<open>The invariant of a rectangular region\<close>

lemma bc_list_all2:
  assumes "\<And>x y. x \<in> set xs \<Longrightarrow> y \<in> set ys \<Longrightarrow> R (f x y) (g x y)"
    "broadcastable (length xs) (length ys)"
  shows "list_all2 R (bc f xs ys) (bc g xs ys)"
proof (cases "length xs = length ys")
  case True
  then show ?thesis using assms(1)
    by (auto simp: bc_def list_all2_conv_all_nth)
next
  case False
  show ?thesis
  proof (cases "length xs = 1")
    case True
    then have "hd xs \<in> set xs" by (cases xs) auto
    then show ?thesis using False True assms(1)
      by (auto simp: bc_def list_all2_conv_all_nth)
  next
    case n1: False
    with False assms(2) have "length ys = 1" by (simp add: broadcastable_def)
    then have "hd ys \<in> set ys" by (cases ys) auto
    then show ?thesis using False n1 assms(1)
      by (auto simp: bc_def list_all2_conv_all_nth)
  qed
qed

lemma vec_op_mult_nonneg:
  assumes "vec_op (\<lambda>a b. a * b) xs scale = Inr ss" "\<forall>x \<in> set xs. 0 \<le> x"
    "case scale of Scalar s \<Rightarrow> 0 \<le> s | Vector ys \<Rightarrow> \<forall>y \<in> set ys. 0 \<le> y"
  shows "\<forall>z \<in> set ss. 0 \<le> z"
proof (cases scale)
  case (Scalar s)
  then show ?thesis using assms by auto
next
  case (Vector ys)
  with assms(1) have ss: "ss = bc (\<lambda>a b. a * b) xs ys" "broadcastable (length xs) (length ys)"
    by (auto simp: broadcast_def split: if_splits)
  have "list_all2 (\<lambda>a b. 0 \<le> a) (bc (\<lambda>a b. a * b) xs ys) (bc (\<lambda>a b. a * b) xs ys)"
    using assms(2,3) Vector by (intro bc_list_all2 [OF _ ss(2)]) auto
  then show ?thesis unfolding ss(1) by (auto simp: list_all2_conv_all_nth in_set_conv_nth)
qed

lemma update_L_le_U:
  assumes "broadcast (\<lambda>a b. a - b) mean ss = Inr L" "broadcast (\<lambda>a b. a + b) mean ss = Inr U"
    "\<forall>z \<in> set ss. (0::real) \<le> z"
  shows "list_all2 (\<lambda>a b. a \<le> b) L U"
proof -
  from assms(1,2) have b: "broadcastable (length mean) (length ss)"
    and L: "L = bc (\<lambda>a b. a - b) mean ss" and U: "U = bc (\<lambda>a b. a + b) mean ss"
    by (auto simp: broadcast_def split: if_splits)
  show ?thesis unfolding L U
    by (rule bc_list_all2 [OF _ b]) (use assms(3) in auto)
qed

lemma hd_conv_nth0: "length xs = 1 \<Longrightarrow> hd xs = xs ! 0"
  by (cases xs) auto

lemma intersect_tightened_inv:
  fixes lo up L U :: vec
  assumes inv: "list_all2 (\<lambda>a b. a \<le> b) lo up" and LU: "list_all2 (\<lambda>a b. a \<le> b) L U"
    and b: "broadcastable (length lo) (length L)"
    and c1: "\<not> np_any (bc (\<lambda>a b. a \<ge> b) lo U)" and c2: "\<not> np_any (bc (\<lambda>a b. a \<le> b) up L)"
  shows "list_all2 (\<lambda>a b. a \<le> b) (bc max lo L) (bc min up U)"
proof -
  have m: "length up = length lo" using inv by (simp add: list_all2_lengthD)
  have k: "length U = length L" using LU by (simp add: list_all2_lengthD)
  have invn: "lo ! i \<le> up ! i" if "i < length lo" for i
    using inv that by (simp add: list_all2_conv_all_nth)
  have LUn: "L ! i \<le> U ! i" if "i < length L" for i
    using LU that by (simp add: list_all2_conv_all_nth)
  show ?thesis
  proof (cases "length lo = length L")
    case True
    have d1: "lo ! i < U ! i" if "i < length lo" for i
      using c1 that True k m by (auto simp: bc_def np_any_def list_ex_iff set_zip not_le)
    have d2: "L ! i < up ! i" if "i < length lo" for i
      using c2 that True k m by (auto simp: bc_def np_any_def list_ex_iff set_zip not_le)
    show ?thesis
      using True k m invn LUn d1 d2
      by (auto simp: bc_def list_all2_conv_all_nth less_imp_le)
  next
    case False
    show ?thesis
    proof (cases "length lo = 1")
      case True
      have h: "hd lo = lo ! 0" "hd up = up ! 0" using True m by (simp_all add: hd_conv_nth0)
      have i0: "lo ! 0 \<le> up ! 0" using invn [of 0] True by simp
      have d1: "lo ! 0 < U ! i" if "i < length L" for i
        using c1 that True False k m h by (auto simp: bc_def np_any_def list_ex_iff not_le)
      have d2: "L ! i < up ! 0" if "i < length L" for i
        using c2 that True False k m h by (auto simp: bc_def np_any_def list_ex_iff not_le)
      show ?thesis
        using True False k m h i0 LUn d1 d2
        by (auto simp: bc_def list_all2_conv_all_nth less_imp_le)
    next
      case n1: False
      with False b have k1: "length L = 1" by (simp add: broadcastable_def)
      have h: "hd L = L ! 0" "hd U = U ! 0" using k1 k by (simp_all add: hd_conv_nth0)
      have i0: "L ! 0 \<le> U ! 0" using LUn [of 0] k1 by simp
      have d1: "lo ! i < U ! 0" if "i < length lo" for i
        using c1 that n1 False k1 k m h by (auto simp: bc_def np_any_def list_ex_iff not_le)
      have d2: "L ! 0 < up ! i" if "i < length lo" for i
        using c2 that n1 False k1 k m h by (auto simp: bc_def np_any_def list_ex_iff not_le)
      show ?thesis
        using n1 False k1 k m h i0 invn d1 d2
        by (auto simp: bc_def list_all2_conv_all_nth less_imp_le)
    qed
  qed
qed

lemma check_intersection_TrueD:
  assumes "hyperrectangle_check_intersection lo up L U = Inr True"
  shows "broadcastable (length lo) (length U)" "\<not> np_any (bc (\<lambda>a b. a \<ge> b) lo U)"
    "broadcastable (length up) (length L)" "\<not> np_any (bc (\<lambda>a b. a \<le> b) up L)"
  using assms
  by (auto simp: hyperrectangle_check_intersection_def broadcast_def split: if_splits)

lemma intersect_inv:
  assumes "rect_inv self" "list_all2 (\<lambda>a b. a \<le> b) L U"
  shows "rect_inv (snd (Rectangular_intersect self L U))"
proof (cases "hyperrectangle_check_intersection (lower self) (upper self) L U")
  case (Inl e)
  then show ?thesis using assms(1) by (simp add: Rectangular_intersect_def)
next
  case (Inr b)
  show ?thesis
  proof (cases b)
    case False
    then show ?thesis using Inr assms(2) by (simp add: Rectangular_intersect_def rect_inv_def)
  next
    case True
    from Inr True
    have chk: "hyperrectangle_check_intersection (lower self) (upper self) L U = Inr True"
      by simp
    note d = check_intersection_TrueD [OF chk]
    have inv: "list_all2 (\<lambda>a b. a \<le> b) (lower self) (upper self)"
      using assms(1) by (simp add: rect_inv_def)
    have m: "length (upper self) = length (lower self)" using inv by (simp add: list_all2_lengthD)
    have k: "length U = length L" using assms(2) by (simp add: list_all2_lengthD)
    have b1: "broadcastable (length (lower self)) (length L)" using d(1) k by simp
    have b2: "broadcastable (length (upper self)) (length U)" using d(3) k by simp
    have t: "list_all2 (\<lambda>a b. a \<le> b) (bc max (lower self) L) (bc min (upper self) U)"
      by (rule intersect_tightened_inv [OF inv assms(2) b1 d(2) d(4)])
    show ?thesis
      using Inr True b1 b2 t
      by (simp add: Rectangular_intersect_def broadcast_def rect_inv_def)
  qed
qed

lemma np_diag_sqrt_nonneg:
  assumes "\<forall>d < length covariance. 0 \<le> covariance ! d ! d"
  shows "\<forall>x \<in> set (map sqrt (np_diag covariance)). 0 \<le> x"
  using assms by (auto simp: np_diag_def)

lemma update_inv:
  assumes "rect_inv self" "scale_nonneg scale" "\<forall>d < length covariance. 0 \<le> covariance ! d ! d"
  shows "rect_inv (snd (Rectangular_update self mean covariance scale))"
proof (cases "is_square covariance \<and> length covariance \<noteq> 1")
  case False
  then show ?thesis using assms(1) by (auto simp: Rectangular_update_def)
next
  case True
  show ?thesis
  proof (cases "vec_op (\<lambda>a b. a * b) (map sqrt (np_diag covariance)) scale")
    case (Inl e)
    then show ?thesis using assms(1) True by (simp add: Rectangular_update_def)
  next
    case (Inr ss)
    have sc: "case scale of Scalar s \<Rightarrow> 0 \<le> s | Vector ys \<Rightarrow> \<forall>y \<in> set ys. 0 \<le> y"
      using assms(2) by (cases scale) (simp_all add: list_all_iff)
    have nn: "\<forall>z \<in> set ss. 0 \<le> z"
      by (rule vec_op_mult_nonneg [OF Inr np_diag_sqrt_nonneg [OF assms(3)] sc])
    show ?thesis
    proof (cases "broadcast (\<lambda>a b. a - b) mean ss")
      case e: (Inl e)
      then show ?thesis using assms(1) True Inr by (simp add: Rectangular_update_def)
    next
      case L: (Inr L)
      then have "broadcastable (length mean) (length ss)"
        by (simp add: broadcast_def split: if_splits)
      then obtain U where U: "broadcast (\<lambda>a b. a + b) mean ss = Inr U"
        by (simp add: broadcast_def)
      have LU: "list_all2 (\<lambda>a b. a \<le> b) L U" by (rule update_L_le_U [OF L U nn])
      show ?thesis
      proof (cases "intersect_iteratively self")
        case it: True
        then show ?thesis using True Inr L U intersect_inv [OF assms(1) LU]
          by (simp add: Rectangular_update_def)
      next
        case it: False
        then show ?thesis using True Inr L U LU
          by (simp add: Rectangular_update_def rect_inv_def)
      qed
    qed
  qed
qed

lemma init_inv:
  assumes "Rectangular_init n lo up it = Inr r"
  shows "rect_inv r"
proof (cases "\<exists>l u. lo = Some l \<and> up = Some u")
  case True
  then obtain l u where lu: "lo = Some l" "up = Some u" by blast
  with assms have len: "length l = n" "length u = n"
    by (auto simp: Rectangular_init_def split: if_splits)
  then have b: "broadcast (\<lambda>a b. a \<le> b) l u = Inr (map (\<lambda>(x, y). x \<le> y) (zip l u))"
    by (simp add: broadcast_same_length)
  from assms lu len b have r: "r = \<lparr>lower = l, upper = u, intersect_iteratively = it\<rparr>"
    and a: "np_all (map (\<lambda>(x, y). x \<le> y) (zip l u))"
    by (auto simp: Rectangular_init_def split: if_splits)
  from a len have "list_all2 (\<lambda>a b. a \<le> b) l u"
    by (auto simp: np_all_def list_all_iff list_all2_conv_all_nth set_zip)
  then show ?thesis by (simp add: r rect_inv_def)
next
  case False
  then have "r = \<lparr>lower = replicate n (- 1000000000000),
               upper = replicate n 1000000000000, intersect_iteratively = it\<rparr>"
    using assms by (cases lo; cases up) (auto simp: Rectangular_init_def)
  then show ?thesis by (simp add: rect_inv_def list_all2_conv_all_nth)
qed

text \<open>
  Claim C9. The invariant \<open>lower \<le> upper\<close> (elementwise, equal lengths) holds of every
  region the constructor returns, with default bounds (it always returns then) or with
  explicit bounds (bounds of the right length that violate the invariant are rejected
  with AssertionError), and every
  \<open>update\<close> with \<open>scale \<ge> 0\<close> and a nonnegative covariance diagonal preserves it, whatever
  the shapes of its arguments: a call that raises leaves the region as it was, the
  non-iterative branch installs \<open>[L, U]\<close> with \<open>L \<le> U\<close>, and \<open>intersect\<close> either tightens
  (the overlap test makes the maximum of the lower bounds stay below the minimum of the
  upper bounds) or installs \<open>[L, U]\<close>.
\<close>

lemma init_default:
  "Rectangular_init n None up it =
     Inr \<lparr>lower = replicate n (- 1000000000000), upper = replicate n 1000000000000,
          intersect_iteratively = it\<rparr>"
  by (simp add: Rectangular_init_def)

lemma init_rejects:
  assumes "length l = n" "length u = n" "\<not> list_all2 (\<lambda>a b. a \<le> b) l u"
  shows "Rectangular_init n (Some l) (Some u) it = Inl AssertionError"
proof -
  have "\<not> np_all (map (\<lambda>(x, y). x \<le> y) (zip l u))"
    using assms by (auto simp: np_all_def list_all_iff list_all2_conv_all_nth set_zip)
  then show ?thesis
    using assms(1,2) by (simp add: Rectangular_init_def broadcast_same_length)
qed

theorem Rectangular_invariant:
  "(Rectangular_init n lo up it = Inr r \<longrightarrow> rect_inv r)
   \<and> (\<exists>r0. Rectangular_init n None None it = Inr r0)
   \<and> (length l = n \<and> length u = n \<and> \<not> list_all2 (\<lambda>a b. a \<le> b) l u
        \<longrightarrow> Rectangular_init n (Some l) (Some u) it = Inl AssertionError)
   \<and> (rect_inv self \<and> scale_nonneg scale \<and> (\<forall>d < length covariance. 0 \<le> covariance ! d ! d)
        \<longrightarrow> rect_inv (snd (Rectangular_update self mean covariance scale)))"
  using init_inv [of n lo up it r] update_inv [of self scale covariance mean]
    init_default [of n None it] init_rejects [of l n u it]
  by simp

theorem Rectangular_invariant_witness:
  "rect_inv \<lparr>lower = [0, 0], upper = [3, 3], intersect_iteratively = True\<rparr>
   \<and> rect_inv (snd (Rectangular_update
         \<lparr>lower = [0, 0], upper = [3, 3], intersect_iteratively = True\<rparr>
         [2, 2] [[4, 0], [0, 4]] (Scalar (1/2))))
   \<and> rect_inv (snd (Rectangular_update
         \<lparr>lower = [0, 0], upper = [3, 3], intersect_iteratively = True\<rparr>
         [9, 9] [[4, 0], [0, 4]] (Scalar (1/2))))
   \<and> rect_inv (snd (Rectangular_update
         \<lparr>lower = [0, 0], upper = [3, 3], intersect_iteratively = False\<rparr>
         [2, 2] [[4, 0], [0, 4]] (Vector [1, 2])))"
proof -
  have i: "Rectangular_init 2 (Some [0, 0]) (Some [3, 3]) True =
             Inr \<lparr>lower = [0, 0], upper = [3, 3], intersect_iteratively = True\<rparr>"
    by (simp add: Rectangular_init_def broadcast_def broadcastable_def bc_def np_all_def)
  have n: "\<forall>d < length [[4, 0], [0, 4::real]]. 0 \<le> [[4, 0], [0, 4::real]] ! d ! d"
    by (simp add: less_Suc_eq)
  have s: "scale_nonneg (Scalar (1/2))" "scale_nonneg (Vector [1, 2])" by simp_all
  have v: "rect_inv \<lparr>lower = [0, 0], upper = [3, 3], intersect_iteratively = False\<rparr>"
    by (simp add: rect_inv_def)
  note a = Rectangular_invariant [where n = 2 and lo = "Some [0, 0]" and up = "Some [3, 3]"
      and it = True and r = "\<lparr>lower = [0, 0], upper = [3, 3], intersect_iteratively = True\<rparr>"
      and self = "\<lparr>lower = [0, 0], upper = [3, 3], intersect_iteratively = True\<rparr>"
      and scale = "Scalar (1/2)" and covariance = "[[4, 0], [0, 4]]"]
  note b = Rectangular_invariant [where n = 2 and lo = "Some [0, 0]" and up = "Some [3, 3]"
      and it = True and r = "\<lparr>lower = [0, 0], upper = [3, 3], intersect_iteratively = True\<rparr>"
      and self = "\<lparr>lower = [0, 0], upper = [3, 3], intersect_iteratively = False\<rparr>"
      and scale = "Vector [1, 2]" and covariance = "[[4, 0], [0, 4]]" and mean = "[2, 2]"]
  from a [of "[2, 2]"] a [of "[9, 9]"] b i n s v show ?thesis by simp
qed

section \<open>Domination of rectangular regions\<close>

lemma vertices_member_length:
  assumes "length lo = length up" "v \<in> set (hyperrectangle_get_vertices lo up)"
  shows "length v = length lo"
proof -
  from assms(2) obtain k where k: "k < length (hyperrectangle_get_vertices lo up)"
    "hyperrectangle_get_vertices lo up ! k = v" by (auto simp: in_set_conv_nth)
  with vertices_length_nth [OF assms(1)] have "v = vertex_at lo up k" by auto
  then show ?thesis by (simp add: vertex_at_def)
qed

lemma vec_op_plus_slack:
  assumes "np_size s = 1 \<or> np_size s = length v"
  shows "vec_op (\<lambda>a b. a + b) v s = Inr (plus_slack v s)"
  using assms by (cases s) (auto simp: broadcast_def broadcastable_def)

lemma dominated_inner_all:
  assumes "\<forall>v2 \<in> set vs. vec_op (\<lambda>a b. a + b) v2 s = Inr (plus_slack v2 s)"
  shows "dominated_inner ord s v1 vs = Inr (\<forall>v2 \<in> set vs. dominates ord (plus_slack v2 s) v1)"
  using assms by (induction vs) auto

lemma dominated_outer_all:
  assumes "\<forall>v2 \<in> set vs2. vec_op (\<lambda>a b. a + b) v2 s = Inr (plus_slack v2 s)"
  shows "dominated_outer ord s vs1 vs2 =
           Inr (\<forall>v1 \<in> set vs1. \<forall>v2 \<in> set vs2. dominates ord (plus_slack v2 s) v1)"
proof (induction vs1)
  case Nil
  then show ?case by simp
next
  case (Cons v1 vs1)
  show ?case
    using Cons.IH dominated_inner_all [OF assms, of ord v1]
    by (cases "\<forall>v2 \<in> set vs2. dominates ord (plus_slack v2 s) v1") auto
qed

text \<open>
  What the loops compute, in terms of the list of points they run over.
\<close>

lemma is_dominated_enumerated:
  assumes "rect_inv obj1" "rect_inv obj2" "length (lower obj1) = D" "length (lower obj2) = D"
    "np_size slackness = 1 \<or> np_size slackness = D"
  shows "Rectangular_is_dominated ord (Rect obj1) (Rect obj2) slackness =
           Inr (\<forall>v1 \<in> set (hyperrectangle_get_vertices (lower obj1) (upper obj1)).
                \<forall>v2 \<in> set (hyperrectangle_get_vertices (lower obj2) (upper obj2)).
                  dominates ord (plus_slack v2 slackness) v1)"
proof -
  have l2: "length (lower obj2) = length (upper obj2)"
    using assms(2) by (simp add: rect_inv_def list_all2_lengthD)
  have v: "\<forall>v2 \<in> set (hyperrectangle_get_vertices (lower obj2) (upper obj2)).
             vec_op (\<lambda>a b. a + b) v2 slackness = Inr (plus_slack v2 slackness)"
  proof
    fix v2 assume "v2 \<in> set (hyperrectangle_get_vertices (lower obj2) (upper obj2))"
    then have "length v2 = D" using vertices_member_length [OF l2] assms(4) by simp
    then show "vec_op (\<lambda>a b. a + b) v2 slackness = Inr (plus_slack v2 slackness)"
      using assms(5) by (intro vec_op_plus_slack) simp
  qed
  have a: "(if np_size slackness = 1 then Inr True
            else (case region_lower (Rect obj1) of
                    Inl e \<Rightarrow> Inl e
                  | Inr l \<Rightarrow> Inr (np_size slackness = length l))) = Inr True"
    using assms(3,5) by auto
  show ?thesis
    unfolding Rectangular_is_dominated_def a
    by (simp add: dominated_outer_all [OF v])
qed

text \<open>
  The points \<open>hyperrectangle_get_vertices\<close> lists are exactly the corners \<open>vertex_at k\<close>
  for \<open>k < 2 ^ D\<close>: every choice of lower or upper bound per dimension, one per bit
  pattern.
\<close>

lemma vertices_set:
  assumes "length lo = length up"
  shows "set (hyperrectangle_get_vertices lo up) = vertex_at lo up ` {..<2 ^ length lo}"
proof -
  note V = vertices_length_nth [OF assms]
  have "set (hyperrectangle_get_vertices lo up) =
          {hyperrectangle_get_vertices lo up ! k | k. k < 2 ^ length lo}"
    using V by (simp add: set_conv_nth)
  also have "\<dots> = vertex_at lo up ` {..<2 ^ length lo}"
  proof
    show "{hyperrectangle_get_vertices lo up ! k | k. k < 2 ^ length lo}
            \<subseteq> vertex_at lo up ` {..<2 ^ length lo}"
      using V by auto
    show "vertex_at lo up ` {..<2 ^ length lo}
            \<subseteq> {hyperrectangle_get_vertices lo up ! k | k. k < 2 ^ length lo}"
    proof
      fix v assume "v \<in> vertex_at lo up ` {..<2 ^ length lo}"
      then obtain k where k: "k < 2 ^ length lo" "v = vertex_at lo up k" by auto
      then have "v = hyperrectangle_get_vertices lo up ! k" using V by simp
      with k(1) show "v \<in> {hyperrectangle_get_vertices lo up ! k | k. k < 2 ^ length lo}"
        by blast
    qed
  qed
  finally show ?thesis .
qed

lemma vertex_at_coordinate:
  assumes "d < length lo"
  shows "length (vertex_at lo up k) = length lo"
    and "vertex_at lo up k ! d = (if bit k (length lo - 1 - d) then up ! d else lo ! d)"
  using assms by (simp_all add: vertex_at_def bit_iff_odd)

text \<open>
  Claim C4. For two rectangular regions of dimension \<open>D\<close> with \<open>lower \<le> upper\<close> and a
  slackness of size 1 or \<open>D\<close>, \<open>RectangularConfidenceRegion.is_dominated\<close> returns, without
  an exception, true if and only if \<open>order.dominates(v2 + slackness, v1)\<close> holds for every
  vertex \<open>v1\<close> of \<open>obj1\<close> and every vertex \<open>v2\<close> of \<open>obj2\<close>. The vertices of a box are its
  \<open>2 ^ D\<close> corners: for every \<open>k < 2 ^ D\<close> the point \<open>vertex_at lower upper k\<close>, whose
  coordinate \<open>d\<close> is \<open>upper ! d\<close> or \<open>lower ! d\<close> as bit \<open>D - 1 - d\<close> of \<open>k\<close> is set or not. The
  order is any predicate \<open>dominates\<close>.
\<close>

theorem Rectangular_is_dominated_all_vertex_pairs:
  assumes "rect_inv obj1" "rect_inv obj2" "length (lower obj1) = D" "length (lower obj2) = D"
    "np_size slackness = 1 \<or> np_size slackness = D"
  shows "Rectangular_is_dominated ord (Rect obj1) (Rect obj2) slackness =
           Inr (\<forall>k1 < 2 ^ D. \<forall>k2 < 2 ^ D.
                  dominates ord
                    (plus_slack (vertex_at (lower obj2) (upper obj2) k2) slackness)
                    (vertex_at (lower obj1) (upper obj1) k1))"
proof -
  have l1: "length (lower obj1) = length (upper obj1)"
    using assms(1) by (simp add: rect_inv_def list_all2_lengthD)
  have l2: "length (lower obj2) = length (upper obj2)"
    using assms(2) by (simp add: rect_inv_def list_all2_lengthD)
  have s1: "set (hyperrectangle_get_vertices (lower obj1) (upper obj1)) =
              vertex_at (lower obj1) (upper obj1) ` {..<2 ^ D}"
    using vertices_set [OF l1] assms(3) by simp
  have s2: "set (hyperrectangle_get_vertices (lower obj2) (upper obj2)) =
              vertex_at (lower obj2) (upper obj2) ` {..<2 ^ D}"
    using vertices_set [OF l2] assms(4) by simp
  show ?thesis
    unfolding is_dominated_enumerated [OF assms] s1 s2 by auto
qed

text \<open>
  The order of the cone with the single row \<open>(1, -1)\<close>. Against the box \<open>[0,1] \<times> [0,1]\<close>
  the box \<open>[2,3] \<times> [0,3/2]\<close> passes at all pairs of lowest and highest corners and fails
  at the mixed corners \<open>(2, 3/2)\<close> and \<open>(1, 0)\<close>; the box \<open>[2,3] \<times> [0,1]\<close> passes at
  every pair.
\<close>

theorem Rectangular_is_dominated_all_vertex_pairs_witness:
  "Rectangular_is_dominated
     \<lparr>dominates = (\<lambda>p q. 0 \<le> (p ! 0 - q ! 0) - (p ! 1 - q ! 1)), cone_W = [[1, - 1]]\<rparr>
     (Rect \<lparr>lower = [0, 0], upper = [1, 1], intersect_iteratively = False\<rparr>)
     (Rect \<lparr>lower = [2, 0], upper = [3, 3/2], intersect_iteratively = False\<rparr>)
     (Scalar 0) = Inr False
   \<and> \<not> (\<forall>k1 < 2 ^ 2. \<forall>k2 < 2 ^ 2.
          0 \<le> (plus_slack (vertex_at [2, 0] [3, 3/2] k2) (Scalar 0) ! 0
                  - vertex_at [0, 0] [1, 1] k1 ! 0)
               - (plus_slack (vertex_at [2, 0] [3, 3/2] k2) (Scalar 0) ! 1
                  - vertex_at [0, 0] [1, 1] k1 ! 1))
   \<and> 0 \<le> (plus_slack [2, 0] (Scalar 0) ! 0 - [1, 1] ! 0)
            - (plus_slack [2, 0] (Scalar 0) ! 1 - [1, 1] ! (1::nat))
   \<and> 0 \<le> (plus_slack [3, 3/2] (Scalar 0) ! 0 - [0, 0] ! 0)
            - (plus_slack [3, 3/2] (Scalar 0) ! 1 - [0, 0] ! (1::nat))
   \<and> Rectangular_is_dominated
     \<lparr>dominates = (\<lambda>p q. 0 \<le> (p ! 0 - q ! 0) - (p ! 1 - q ! 1)), cone_W = [[1, - 1]]\<rparr>
     (Rect \<lparr>lower = [0, 0], upper = [1, 1], intersect_iteratively = False\<rparr>)
     (Rect \<lparr>lower = [2, 0], upper = [3, 1], intersect_iteratively = False\<rparr>)
     (Vector [0, 0]) = Inr True"
proof -
  let ?ord = "\<lparr>dominates = (\<lambda>p q. 0 \<le> (p ! 0 - q ! 0) - (p ! 1 - q ! 1)),
                cone_W = [[1, - 1::real]]\<rparr>"
  have i: "rect_inv \<lparr>lower = [0, 0], upper = [1, 1], intersect_iteratively = False\<rparr>"
    "rect_inv \<lparr>lower = [2, 0], upper = [3, 3/2], intersect_iteratively = False\<rparr>"
    by (simp_all add: rect_inv_def)
  have a: "Rectangular_is_dominated ?ord
      (Rect \<lparr>lower = [0, 0], upper = [1, 1], intersect_iteratively = False\<rparr>)
      (Rect \<lparr>lower = [2, 0], upper = [3, 3/2], intersect_iteratively = False\<rparr>)
      (Scalar 0) = Inr False"
    by (simp add: Rectangular_is_dominated_def hyperrectangle_get_vertices_def
        itertools_product_def)
  have b: "Rectangular_is_dominated ?ord
      (Rect \<lparr>lower = [0, 0], upper = [1, 1], intersect_iteratively = False\<rparr>)
      (Rect \<lparr>lower = [2, 0], upper = [3, 1], intersect_iteratively = False\<rparr>)
      (Vector [0, 0]) = Inr True"
    by (simp add: Rectangular_is_dominated_def hyperrectangle_get_vertices_def
        itertools_product_def broadcast_def broadcastable_def bc_def)
  have c: "\<not> (\<forall>k1 < 2 ^ 2. \<forall>k2 < 2 ^ 2.
          0 \<le> (plus_slack (vertex_at [2, 0] [3, 3/2] k2) (Scalar 0) ! 0
                  - vertex_at [0, 0] [1, 1] k1 ! 0)
               - (plus_slack (vertex_at [2, 0] [3, 3/2] k2) (Scalar 0) ! 1
                  - vertex_at [0, 0] [1, 1] k1 ! 1))"
    using Rectangular_is_dominated_all_vertex_pairs [OF i(1) i(2), of 2 "Scalar 0" ?ord] a
    by simp
  from a b c show ?thesis by simp
qed

section \<open>Covering and the solver status\<close>

text \<open>
  Claim C1 (as amended). Once the solve has returned (at the first attempt, or at the
  second after a SolverError), \<open>RectangularConfidenceRegion.is_covered\<close> returns true
  exactly when the status is \<open>None\<close> or the string \<open>optimal\<close>, and false for every other
  status, infeasible or not; \<open>EllipsoidalConfidenceRegion.is_covered\<close> returns false exactly
  when the status string contains \<open>infeasible\<close> and true for every other status string.
\<close>

theorem is_covered_status_policy:
  "((np_size slackness = 1 \<or> np_size slackness = ncols (cone_W ord))
     \<and> solve_retry_scs ext
         (Rectangular_cover_problem (cone_W ord) (lower r1) (upper r1) (lower r2) (upper r2)
            slackness) = Inr sol
     \<longrightarrow> Rectangular_is_covered ext ord (Rect r1) (Rect r2) slackness =
           Inr (status sol = None \<or> status sol = Some ''optimal''))
   \<and> ((np_size slackness = 1 \<or> np_size slackness = length (cone_W ord))
       \<and> ellipsoid_constraint ext (Variable ''mux'' (ncols (cone_W ord))) (Ellip e1) = Inr cons1
       \<and> ellipsoid_constraint ext (Variable ''muy'' (ncols (cone_W ord))) (Ellip e2) = Inr cons2
       \<and> solve_retry_scs ext (Ellipsoidal_cover_problem (cone_W ord) cons1 cons2 slackness)
           = Inr sol'
       \<and> status sol' = Some s
     \<longrightarrow> Ellipsoidal_is_covered ext ord (Ellip e1) (Ellip e2) slackness =
           Inr (\<not> str_contains ''infeasible'' s))"
  by (auto simp: Rectangular_is_covered_def Ellipsoidal_is_covered_def split: option.splits)

lemma ellipsoid_constraint_Ellip:
  "sqrtm_inv ext (sigma e) = Inr q \<Longrightarrow>
   ellipsoid_constraint ext mu (Ellip e) =
     Inr (Leq (Norm (MatMul q (Transpose (Sub mu (Const (center e)))))) (ConstA (alpha e)))"
  by (simp add: ellipsoid_constraint_def)

lemma str_contains_infeasible:
  "str_contains ''infeasible'' ''infeasible''"
  "str_contains ''infeasible'' ''infeasible_inaccurate''"
  "\<not> str_contains ''infeasible'' ''optimal''"
  "\<not> str_contains ''infeasible'' ''optimal_inaccurate''"
  by simp_all

theorem is_covered_status_policy_witness:
  "Rectangular_is_covered
     \<lparr>solve = (\<lambda>sv p. Returns \<lparr>status = Some ''infeasible'', prob_value = PosInf, x_value = None\<rparr>),
      sqrtm_inv = (\<lambda>m. Inr m)\<rparr>
     \<lparr>dominates = (\<lambda>p q. True), cone_W = [[1, 0], [0, 1]]\<rparr>
     (Rect \<lparr>lower = [0, 0], upper = [1, 1], intersect_iteratively = False\<rparr>)
     (Rect \<lparr>lower = [2, 2], upper = [3, 3], intersect_iteratively = False\<rparr>)
     (Scalar 0) = Inr False
   \<and> Ellipsoidal_is_covered
     \<lparr>solve = (\<lambda>sv p. Returns \<lparr>status = Some ''optimal_inaccurate'', prob_value = Finite 0,
                               x_value = None\<rparr>),
      sqrtm_inv = (\<lambda>m. Inr m)\<rparr>
     \<lparr>dominates = (\<lambda>p q. True), cone_W = [[1, 0], [0, 1]]\<rparr>
     (Ellip \<lparr>center = [0, 0], sigma = [[1, 0], [0, 1]], alpha = Scalar 1\<rparr>)
     (Ellip \<lparr>center = [2, 2], sigma = [[1, 0], [0, 1]], alpha = Scalar 1\<rparr>)
     (Scalar 0) = Inr True"
proof -
  let ?extA = "\<lparr>solve = (\<lambda>sv p. Returns \<lparr>status = Some ''infeasible'', prob_value = PosInf,
                 x_value = None\<rparr>), sqrtm_inv = (\<lambda>m. Inr m)\<rparr>"
  let ?extB = "\<lparr>solve = (\<lambda>sv p. Returns \<lparr>status = Some ''optimal_inaccurate'',
                 prob_value = Finite 0, x_value = None\<rparr>), sqrtm_inv = (\<lambda>m. Inr m)\<rparr>"
  let ?ord = "\<lparr>dominates = (\<lambda>p q. True), cone_W = [[1, 0], [0, 1::real]]\<rparr>"
  let ?e1 = "\<lparr>center = [0, 0], sigma = [[1, 0], [0, 1]], alpha = Scalar 1\<rparr>"
  let ?e2 = "\<lparr>center = [2, 2], sigma = [[1, 0], [0, 1]], alpha = Scalar 1\<rparr>"
  note t = is_covered_status_policy [where ord = ?ord and slackness = "Scalar 0"]
  have a: "Rectangular_is_covered ?extA ?ord
      (Rect \<lparr>lower = [0, 0], upper = [1, 1], intersect_iteratively = False\<rparr>)
      (Rect \<lparr>lower = [2, 2], upper = [3, 3], intersect_iteratively = False\<rparr>) (Scalar 0) = Inr False"
    using t [where ext = ?extA
        and ?r1.0 = "\<lparr>lower = [0, 0], upper = [1, 1], intersect_iteratively = False\<rparr>"
        and ?r2.0 = "\<lparr>lower = [2, 2], upper = [3, 3], intersect_iteratively = False\<rparr>"
        and sol = "\<lparr>status = Some ''infeasible'', prob_value = PosInf, x_value = None\<rparr>"]
    by (simp add: solve_retry_scs_def)
  have b: "Ellipsoidal_is_covered ?extB ?ord (Ellip ?e1) (Ellip ?e2) (Scalar 0) = Inr True"
    using t [where ext = ?extB and ?e1.0 = ?e1 and ?e2.0 = ?e2
        and sol' = "\<lparr>status = Some ''optimal_inaccurate'', prob_value = Finite 0, x_value = None\<rparr>"
        and s = "''optimal_inaccurate''"
        and ?cons1.0 = "Leq (Norm (MatMul [[1, 0], [0, 1]]
                       (Transpose (Sub (Variable ''mux'' 2) (Const [0, 0]))))) (ConstA (Scalar 1))"
        and ?cons2.0 = "Leq (Norm (MatMul [[1, 0], [0, 1]]
                       (Transpose (Sub (Variable ''muy'' 2) (Const [2, 2]))))) (ConstA (Scalar 1))"]
    by (simp add: solve_retry_scs_def ellipsoid_constraint_def ncols_def)
  from a b show ?thesis by simp
qed

text \<open>
  A solver that reports \<open>optimal_inaccurate\<close>, which is not a report of infeasibility,
  makes the rectangular \<open>is_covered\<close> return false.
\<close>

theorem Rectangular_is_covered_inaccurate_counterexample:
  "''optimal_inaccurate'' \<noteq> ''infeasible''
   \<and> Rectangular_is_covered
     \<lparr>solve = (\<lambda>sv p. Returns \<lparr>status = Some ''optimal_inaccurate'', prob_value = Finite 0,
                               x_value = None\<rparr>),
      sqrtm_inv = (\<lambda>m. Inr m)\<rparr>
     \<lparr>dominates = (\<lambda>p q. True), cone_W = [[1, 0], [0, 1]]\<rparr>
     (Rect \<lparr>lower = [0, 0], upper = [1, 1], intersect_iteratively = False\<rparr>)
     (Rect \<lparr>lower = [0, 0], upper = [1, 1], intersect_iteratively = False\<rparr>)
     (Scalar 0) = Inr False"
  by (simp add: Rectangular_is_covered_def solve_retry_scs_def ncols_def)

section \<open>The solver fallback\<close>

lemma is_covered_no_retry:
  assumes "length vi = length vj" "\<forall>p. solve ext None p = Raises SolverError"
  shows "is_covered ext vi vj eps W = Inl SolverError"
  using assms by (simp add: is_covered_def broadcast_same_length solve_plain_def)

lemma get_alpha_no_retry:
  assumes "rind < length W" "\<forall>p. solve ext None p = Raises SolverError"
  shows "get_alpha ext rind W = Inl SolverError"
  using assms by (simp add: get_alpha_def solve_plain_def Let_def)

lemma solve_retry_scs_retries:
  assumes "solve ext None p = Raises SolverError"
  shows "solve_retry_scs ext p =
           (case solve ext (Some ''SCS'') p of Raises e \<Rightarrow> Inl e | Returns s \<Rightarrow> Inr s)"
  using assms by (simp add: solve_retry_scs_def)

text \<open>
  Claim C7 says that every conic solve of the core, \<open>get_alpha\<close> and the point-wise
  \<open>is_covered\<close> included, is retried once with SCS when the primary solver raises
  SolverError. With a primary solver that raises SolverError and an SCS that answers,
  \<open>is_covered\<close> and \<open>get_alpha\<close> propagate the SolverError (their \<^verbatim>\<open>prob.solve()\<close> stands
  outside any \<open>try\<close>), while \<open>RectangularConfidenceRegion.is_covered\<close> falls back to SCS and
  returns its answer.
\<close>

theorem utils_solves_do_not_retry:
  "is_covered
     \<lparr>solve = (\<lambda>sv p. case sv of
                  None \<Rightarrow> Raises SolverError
                | Some n \<Rightarrow> Returns \<lparr>status = Some ''infeasible'', prob_value = PosInf,
                                     x_value = None\<rparr>),
      sqrtm_inv = (\<lambda>m. Inr m)\<rparr>
     [0, 0] [1, 1] (1/10) [[1, 0], [0, 1]] = Inl SolverError
   \<and> get_alpha
     \<lparr>solve = (\<lambda>sv p. case sv of
                  None \<Rightarrow> Raises SolverError
                | Some n \<Rightarrow> Returns \<lparr>status = Some ''optimal'', prob_value = Finite (- 1),
                                     x_value = Some [1, 0]\<rparr>),
      sqrtm_inv = (\<lambda>m. Inr m)\<rparr>
     0 [[1, 0], [0, 1]] = Inl SolverError
   \<and> Rectangular_is_covered
     \<lparr>solve = (\<lambda>sv p. case sv of
                  None \<Rightarrow> Raises SolverError
                | Some n \<Rightarrow> Returns \<lparr>status = Some ''infeasible'', prob_value = PosInf,
                                     x_value = None\<rparr>),
      sqrtm_inv = (\<lambda>m. Inr m)\<rparr>
     \<lparr>dominates = (\<lambda>p q. True), cone_W = [[1, 0], [0, 1]]\<rparr>
     (Rect \<lparr>lower = [0, 0], upper = [1, 1], intersect_iteratively = False\<rparr>)
     (Rect \<lparr>lower = [2, 2], upper = [3, 3], intersect_iteratively = False\<rparr>)
     (Scalar 0) = Inr False"
  by (simp add: is_covered_def get_alpha_def solve_plain_def Rectangular_is_covered_def
      solve_retry_scs_def broadcast_def broadcastable_def bc_def ncols_def Let_def)

section \<open>Dispatch on the type of the first region\<close>

lemma broadcast_error: "broadcast f xs ys = Inl e \<Longrightarrow> e = ValueError"
  by (simp add: broadcast_def split: if_splits)

lemma vec_op_error: "vec_op f xs s = Inl e \<Longrightarrow> e = ValueError"
  by (cases s) (auto dest: broadcast_error)

lemma region_lower_error: "region_lower obj = Inl e \<Longrightarrow> e = AttributeError"
  by (cases obj) auto

lemma region_upper_error: "region_upper obj = Inl e \<Longrightarrow> e = AttributeError"
  by (cases obj) auto

lemma region_sigma_error: "region_sigma obj = Inl e \<Longrightarrow> e = AttributeError"
  by (cases obj) auto

lemma region_alpha_error: "region_alpha obj = Inl e \<Longrightarrow> e = AttributeError"
  by (cases obj) auto

lemma region_center_error: "region_center obj = Inl e \<Longrightarrow> e = AttributeError \<or> e = ValueError"
  by (cases obj) (auto split: sum.splits dest: broadcast_error)

lemma dominated_inner_implemented:
  "dominated_inner ord s v1 vs \<noteq> Inl NotImplementedError"
  by (induction vs) (auto split: sum.splits dest: vec_op_error)

lemma dominated_outer_implemented:
  "dominated_outer ord s vs1 vs2 \<noteq> Inl NotImplementedError"
  using dominated_inner_implemented
  by (induction vs1) (auto split: sum.splits bool.splits)

lemma Rectangular_is_dominated_implemented:
  "Rectangular_is_dominated ord obj1 obj2 s \<noteq> Inl NotImplementedError"
  using dominated_outer_implemented
  by (auto simp: Rectangular_is_dominated_def split: sum.splits bool.splits if_splits
      dest: region_lower_error region_upper_error)

lemma solve_retry_scs_implemented:
  "externals_implemented ext \<Longrightarrow> solve_retry_scs ext p \<noteq> Inl NotImplementedError"
  by (auto simp: solve_retry_scs_def externals_implemented_def
      split: solve_outcome.splits if_splits)

lemma ellipsoid_constraint_implemented:
  "externals_implemented ext \<Longrightarrow> ellipsoid_constraint ext mu obj \<noteq> Inl NotImplementedError"
  by (auto simp: ellipsoid_constraint_def externals_implemented_def split: sum.splits
      dest: region_sigma_error region_alpha_error region_center_error)

lemma Rectangular_is_covered_implemented:
  "externals_implemented ext \<Longrightarrow>
   Rectangular_is_covered ext ord obj1 obj2 s \<noteq> Inl NotImplementedError"
  using solve_retry_scs_implemented [of ext]
  by (auto simp: Rectangular_is_covered_def split: sum.splits option.splits
      dest: region_lower_error region_upper_error)

lemma Ellipsoidal_is_covered_implemented:
  "externals_implemented ext \<Longrightarrow>
   Ellipsoidal_is_covered ext ord obj1 obj2 s \<noteq> Inl NotImplementedError"
  using solve_retry_scs_implemented [of ext] ellipsoid_constraint_implemented [of ext]
  by (auto simp: Ellipsoidal_is_covered_def Let_def split: sum.splits option.splits)

lemma value_less_error: "value_less v b = Inl e \<Longrightarrow> e = TypeError"
  by (cases v) auto

lemma dominated_rows_implemented:
  "externals_implemented ext \<Longrightarrow> dominated_rows ext cs d rows \<noteq> Inl NotImplementedError"
proof (induction rows)
  case Nil
  then show ?case by simp
next
  case (Cons a rows)
  obtain row s where a: "a = (row, s)" by (cases a)
  show ?case
    using Cons solve_retry_scs_implemented [of ext]
    by (auto simp: a split: sum.splits bool.splits dest: value_less_error)
qed

lemma Ellipsoidal_is_dominated_implemented:
  "externals_implemented ext \<Longrightarrow>
   Ellipsoidal_is_dominated ext ord obj1 obj2 s \<noteq> Inl NotImplementedError"
  using dominated_rows_implemented [of ext] ellipsoid_constraint_implemented [of ext]
  by (auto simp: Ellipsoidal_is_dominated_def Let_def split: sum.splits
      dest: region_center_error)

lemma vertex_loop_implemented: "vertex_loop ie pt vs \<noteq> Inl NotImplementedError"
  by (induction vs) (auto split: sum.splits dest: broadcast_error)

lemma accepts_implemented: "accepts ie sp P1 pt \<noteq> Inl NotImplementedError"
  by (cases sp) (auto split: sum.splits dest: broadcast_error)

lemma edge_loop_implemented: "edge_loop ie pt d es \<noteq> Inl NotImplementedError"
proof (induction es)
  case Nil
  then show ?case by simp
next
  case (Cons a es)
  obtain P1 P2 where a: "a = (P1, P2)" by (cases a)
  show ?case
    using Cons accepts_implemented
    by (auto simp: a split: sum.splits bool.splits)
qed

lemma edges_of_interest_error: "edges_of_interest pt poly d = Inl e \<Longrightarrow> e = IndexError"
  by (simp add: edges_of_interest_def split: if_splits)

lemma dim_loop_implemented: "dim_loop ie pt poly ds \<noteq> Inl NotImplementedError"
  using edge_loop_implemented
  by (induction ds) (auto split: sum.splits bool.splits dest: edges_of_interest_error)

lemma is_pt_in_extended_polytope_implemented:
  "is_pt_in_extended_polytope pt poly ie \<noteq> Inl NotImplementedError"
  using vertex_loop_implemented dim_loop_implemented
  by (auto simp: is_pt_in_extended_polytope_def split: sum.splits bool.splits)

lemma ref_point_loop_implemented: "ref_point_loop vs1 vs2 \<noteq> Inl NotImplementedError"
  using is_pt_in_extended_polytope_implemented
  by (induction vs1) (auto split: sum.splits bool.splits)

lemma cone_transform_error: "cone_transform W vs = Inl e \<Longrightarrow> e = ValueError"
  by (simp add: cone_transform_def split: if_splits)

lemma Rectangular_check_dominates_implemented:
  "Rectangular_check_dominates ord obj1 obj2 \<noteq> Inl NotImplementedError"
  using ref_point_loop_implemented
  by (auto simp: Rectangular_check_dominates_def split: sum.splits
      dest: region_lower_error region_upper_error cone_transform_error)

text \<open>
  Claim C10 (as amended). The three dispatch helpers choose the method from \<open>region1\<close>
  alone: a rectangular \<open>region1\<close> goes to the rectangular method and an ellipsoidal one
  to the ellipsoidal method, whatever \<open>region2\<close> is, and the helper returns what the
  method returns. \<open>confidence_region_is_dominated\<close> and \<open>confidence_region_is_covered\<close>
  raise NotImplementedError exactly when \<open>region1\<close> is neither (the solver and the matrix
  routine not raising it themselves); \<open>confidence_region_check_dominates\<close> raises it
  exactly when \<open>region1\<close> is not rectangular, an ellipsoidal \<open>region1\<close> included, because
  \<open>EllipsoidalConfidenceRegion.check_dominates\<close> is not implemented.
\<close>

theorem dispatch_on_region1:
  "confidence_region_is_dominated ext ord (Rect r) region2 s =
     Rectangular_is_dominated ord (Rect r) region2 s
   \<and> confidence_region_is_dominated ext ord (Ellip e) region2 s =
     Ellipsoidal_is_dominated ext ord (Ellip e) region2 s
   \<and> confidence_region_check_dominates ord (Rect r) region2 =
     Rectangular_check_dominates ord (Rect r) region2
   \<and> confidence_region_check_dominates ord (Ellip e) region2 =
     Ellipsoidal_check_dominates ord (Ellip e) region2
   \<and> confidence_region_is_covered ext ord (Rect r) region2 s =
     Rectangular_is_covered ext ord (Rect r) region2 s
   \<and> confidence_region_is_covered ext ord (Ellip e) region2 s =
     Ellipsoidal_is_covered ext ord (Ellip e) region2 s
   \<and> (externals_implemented ext \<longrightarrow>
        (confidence_region_is_dominated ext ord region1 region2 s = Inl NotImplementedError
           \<longleftrightarrow> region1 = OtherRegion)
        \<and> (confidence_region_is_covered ext ord region1 region2 s = Inl NotImplementedError
           \<longleftrightarrow> region1 = OtherRegion))
   \<and> (confidence_region_check_dominates ord region1 region2 = Inl NotImplementedError
        \<longleftrightarrow> (\<forall>r'. region1 \<noteq> Rect r'))"
proof -
  have d: "confidence_region_is_dominated ext ord region1 region2 s = Inl NotImplementedError
             \<longleftrightarrow> region1 = OtherRegion" if "externals_implemented ext"
    using that Rectangular_is_dominated_implemented [of ord region1 region2 s]
      Ellipsoidal_is_dominated_implemented [of ext ord region1 region2 s]
    by (cases region1) (simp_all add: confidence_region_is_dominated_def)
  have c: "confidence_region_is_covered ext ord region1 region2 s = Inl NotImplementedError
             \<longleftrightarrow> region1 = OtherRegion" if "externals_implemented ext"
    using that Rectangular_is_covered_implemented [of ext ord region1 region2 s]
      Ellipsoidal_is_covered_implemented [of ext ord region1 region2 s]
    by (cases region1) (simp_all add: confidence_region_is_covered_def)
  have k: "confidence_region_check_dominates ord region1 region2 = Inl NotImplementedError
             \<longleftrightarrow> (\<forall>r'. region1 \<noteq> Rect r')"
    using Rectangular_check_dominates_implemented [of ord region1 region2]
    by (cases region1)
      (simp_all add: confidence_region_check_dominates_def Ellipsoidal_check_dominates_def)
  show ?thesis
    using d c k
    by (simp add: confidence_region_is_dominated_def confidence_region_check_dominates_def
        confidence_region_is_covered_def)
qed

theorem dispatch_on_region1_witness:
  "confidence_region_is_dominated
     \<lparr>solve = (\<lambda>sv p. Returns \<lparr>status = Some ''optimal'', prob_value = Finite 0, x_value = None\<rparr>),
      sqrtm_inv = (\<lambda>m. Inr m)\<rparr>
     \<lparr>dominates = (\<lambda>p q. True), cone_W = [[1, 0], [0, 1]]\<rparr>
     (Rect \<lparr>lower = [0, 0], upper = [1, 1], intersect_iteratively = False\<rparr>)
     (Ellip \<lparr>center = [0, 0], sigma = [[1, 0], [0, 1]], alpha = Scalar 1\<rparr>)
     (Scalar 0) = Inl AttributeError
   \<and> confidence_region_is_covered
     \<lparr>solve = (\<lambda>sv p. Returns \<lparr>status = Some ''optimal'', prob_value = Finite 0, x_value = None\<rparr>),
      sqrtm_inv = (\<lambda>m. Inr m)\<rparr>
     \<lparr>dominates = (\<lambda>p q. True), cone_W = [[1, 0], [0, 1]]\<rparr>
     OtherRegion
     (Ellip \<lparr>center = [0, 0], sigma = [[1, 0], [0, 1]], alpha = Scalar 1\<rparr>)
     (Scalar 0) = Inl NotImplementedError"
proof -
  let ?ext = "\<lparr>solve = (\<lambda>sv p. Returns \<lparr>status = Some ''optimal'', prob_value = Finite 0,
                 x_value = None\<rparr>), sqrtm_inv = (\<lambda>m. Inr m)\<rparr>"
  have i: "externals_implemented ?ext" by (simp add: externals_implemented_def)
  have m: "Rectangular_is_dominated \<lparr>dominates = (\<lambda>p q. True), cone_W = [[1, 0], [0, 1]]\<rparr>
      (Rect \<lparr>lower = [0, 0], upper = [1, 1], intersect_iteratively = False\<rparr>)
      (Ellip \<lparr>center = [0, 0], sigma = [[1, 0], [0, 1]], alpha = Scalar 1\<rparr>)
      (Scalar 0) = Inl AttributeError"
    by (simp add: Rectangular_is_dominated_def)
  show ?thesis
    using dispatch_on_region1 [where ext = ?ext and ?region1.0 = OtherRegion
        and ord = "\<lparr>dominates = (\<lambda>p q. True), cone_W = [[1, 0], [0, 1]]\<rparr>"
        and r = "\<lparr>lower = [0, 0], upper = [1, 1], intersect_iteratively = False\<rparr>"
        and ?region2.0 = "Ellip \<lparr>center = [0, 0], sigma = [[1, 0], [0, 1]], alpha = Scalar 1\<rparr>"
        and s = "Scalar 0"] i m
    by simp
qed

text \<open>
  With an ellipsoidal \<open>region1\<close>, \<open>confidence_region_check_dominates\<close> raises
  NotImplementedError although \<open>region1\<close> is one of the two region classes.
\<close>

theorem check_dominates_ellipsoid_counterexample:
  "confidence_region_check_dominates
     \<lparr>dominates = (\<lambda>p q. True), cone_W = [[1, 0], [0, 1]]\<rparr>
     (Ellip \<lparr>center = [0, 0], sigma = [[1, 0], [0, 1]], alpha = Scalar 1\<rparr>)
     (Ellip \<lparr>center = [2, 2], sigma = [[1, 0], [0, 1]], alpha = Scalar 1\<rparr>)
   = Inl NotImplementedError"
  by (simp add: confidence_region_check_dominates_def Ellipsoidal_check_dominates_def)

end
